theory Spec2Isabelle
  imports Complex_Main "HOL-Library.Sublist" "HOL-Library.Word"
begin

section \<open>The service worker (client/public/sw.js)\<close>

text \<open>
  A request carries the fields the worker reads: its method, its URL, the pathname that
  \<^verbatim>\<open>new URL(request.url)\<close> yields, and its destination. A response carries its status
  line, its body and its content type; \<^verbatim>\<open>response.ok\<close> is a status in 200..299.
\<close>

record request =
  req_method :: string
  req_url :: string
  pathname :: string
  destination :: string

record response =
  status :: nat
  statusText :: string
  body :: string
  contentType :: "string option"

definition ok :: "response \<Rightarrow> bool" where
  "ok r = (200 \<le> status r \<and> status r \<le> 299)"

text \<open>
  The worker's surroundings: \<^verbatim>\<open>fetch\<close> either resolves to a response or rejects
  (\<open>None\<close>); the cache storage is a sequence of entries (cache name, request URL, stored
  response), and \<^verbatim>\<open>caches.match\<close> returns the first entry stored for the URL, or
  \<^verbatim>\<open>undefined\<close> (\<open>None\<close>).
\<close>

record sw_env =
  fetch :: "request \<Rightarrow> response option"
  caches :: "(string \<times> string \<times> response) list"

text \<open>A \<^verbatim>\<open>cache.put\<close> that the worker issues: cache name, request URL, response.\<close>

type_synonym cache_put = "string \<times> string \<times> response"

definition STATIC_CACHE :: string where
  "STATIC_CACHE = ''securevault-static-v1.0.0''"

definition DYNAMIC_CACHE :: string where
  "DYNAMIC_CACHE = ''securevault-dynamic-v1.0.0''"

definition NETWORK_ONLY_URLS :: "string list" where
  "NETWORK_ONLY_URLS =
     [''/api/vault'', ''/api/passwords'', ''/api/subscriptions'', ''/api/auth'', ''/api/session'']"

definition NETWORK_FIRST_URLS :: "string list" where
  "NETWORK_FIRST_URLS = [''/api/'', ''/server/'']"

definition CACHE_FIRST_URLS :: "string list" where
  "CACHE_FIRST_URLS =
     [''/assets/'', ''/icons/'', ''/screenshots/'', ''.css'', ''.js'', ''.png'', ''.jpg'',
      ''.jpeg'', ''.gif'', ''.webp'', ''.svg'', ''.woff'', ''.woff2'']"

definition shouldUseNetworkOnly :: "string \<Rightarrow> bool" where
  "shouldUseNetworkOnly path = list_ex (\<lambda>pattern. prefix pattern path) NETWORK_ONLY_URLS"

definition shouldUseNetworkFirst :: "string \<Rightarrow> bool" where
  "shouldUseNetworkFirst path = list_ex (\<lambda>pattern. prefix pattern path) NETWORK_FIRST_URLS"

definition shouldUseCacheFirst :: "string \<Rightarrow> bool" where
  "shouldUseCacheFirst path =
     list_ex (\<lambda>pattern. sublist pattern path \<or> suffix pattern path) CACHE_FIRST_URLS"

definition caches_match :: "sw_env \<Rightarrow> string \<Rightarrow> response option" where
  "caches_match env u =
     (case filter (\<lambda>(c, k, r). k = u) (caches env) of
        [] \<Rightarrow> None
      | (c, k, r) # rest \<Rightarrow> Some r)"

definition sensitive_unavailable :: response where
  "sensitive_unavailable =
     \<lparr>status = 503, statusText = ''Service Unavailable'',
      body = ''Network unavailable - sensitive data requires connection'',
      contentType = Some ''text/plain''\<rparr>"

definition offline_unavailable :: response where
  "offline_unavailable =
     \<lparr>status = 503, statusText = ''Service Unavailable'',
      body = ''Offline - Content not available'',
      contentType = Some ''text/plain''\<rparr>"

definition resource_unavailable :: response where
  "resource_unavailable =
     \<lparr>status = 503, statusText = ''Service Unavailable'',
      body = ''Resource not available offline'',
      contentType = None\<rparr>"

text \<open>
  Each strategy returns what the promise resolves to (\<open>None\<close> is \<^verbatim>\<open>undefined\<close>)
  together with the \<^verbatim>\<open>cache.put\<close> calls it issues, in order.
\<close>

definition networkOnlyStrategy :: "sw_env \<Rightarrow> request \<Rightarrow> response option \<times> cache_put list" where
  "networkOnlyStrategy env req =
     (case fetch env req of
        Some networkResponse \<Rightarrow> (Some networkResponse, [])
      | None \<Rightarrow> (Some sensitive_unavailable, []))"

text \<open>
  In the offline branch for documents the source returns
  \<^verbatim>\<open>caches.match('/offline.html') || getOfflinePage()\<close>; the left operand is a promise and
  so always truthy, hence the result is whatever that lookup resolves to.
\<close>

definition networkFirstStrategy :: "sw_env \<Rightarrow> request \<Rightarrow> response option \<times> cache_put list" where
  "networkFirstStrategy env req =
     (case fetch env req of
        Some networkResponse \<Rightarrow>
          (Some networkResponse,
           if ok networkResponse \<and> \<not> shouldUseNetworkOnly (pathname req)
           then [(DYNAMIC_CACHE, req_url req, networkResponse)] else [])
      | None \<Rightarrow>
          (case caches_match env (req_url req) of
             Some cachedResponse \<Rightarrow> (Some cachedResponse, [])
           | None \<Rightarrow>
               if destination req = ''document''
               then (caches_match env ''/offline.html'', [])
               else (Some offline_unavailable, [])))"

definition cacheFirstStrategy :: "sw_env \<Rightarrow> request \<Rightarrow> response option \<times> cache_put list" where
  "cacheFirstStrategy env req =
     (case caches_match env (req_url req) of
        Some cachedResponse \<Rightarrow>
          (Some cachedResponse,
           case fetch env req of
             Some r \<Rightarrow> if ok r then [(STATIC_CACHE, req_url req, r)] else []
           | None \<Rightarrow> [])
      | None \<Rightarrow>
          (case fetch env req of
             Some networkResponse \<Rightarrow>
               (Some networkResponse,
                if ok networkResponse then [(STATIC_CACHE, req_url req, networkResponse)] else [])
           | None \<Rightarrow> (Some resource_unavailable, [])))"

definition handleFetchRequest :: "sw_env \<Rightarrow> request \<Rightarrow> response option \<times> cache_put list" where
  "handleFetchRequest env req =
     (if shouldUseNetworkOnly (pathname req) then networkOnlyStrategy env req
      else if shouldUseNetworkFirst (pathname req) then networkFirstStrategy env req
      else if shouldUseCacheFirst (pathname req) then cacheFirstStrategy env req
      else networkFirstStrategy env req)"

section \<open>Cryptographic operations (lib/crypto.ts)\<close>

text \<open>
  Byte buffers (\<^verbatim>\<open>Uint8Array\<close>) are lists of 8-bit words. The platform's primitives are not
  part of the repository and are taken as parameters: \<^verbatim>\<open>TextEncoder.encode\<close>, PBKDF2
  (hash name, password bytes, salt, iteration count, key length in bits) and AES-GCM
  under raw key bits and an IV, whose decryption yields \<open>None\<close> when the tag does not verify.
\<close>

type_synonym bytes = "8 word list"

record platform =
  textEncode :: "string \<Rightarrow> bytes"
  pbkdf2 :: "string \<Rightarrow> bytes \<Rightarrow> bytes \<Rightarrow> nat \<Rightarrow> nat \<Rightarrow> bytes"
  aesGcmEncrypt :: "bytes \<Rightarrow> bytes \<Rightarrow> bytes \<Rightarrow> bytes"
  aesGcmDecrypt :: "bytes \<Rightarrow> bytes \<Rightarrow> bytes \<Rightarrow> bytes option"

text \<open>AES-GCM decrypts, under the same key and IV, what it encrypted.\<close>

definition aead_correct :: "platform \<Rightarrow> bool" where
  "aead_correct P \<longleftrightarrow>
     (\<forall>k n p. aesGcmDecrypt P k n (aesGcmEncrypt P k n p) = Some p)"

record CryptoKey =
  keyAlgorithm :: string
  keyLength :: nat
  extractable :: bool
  usages :: "string list"
  material :: bytes

record EncryptedData =
  data :: bytes
  iv :: bytes
  algorithm :: string

datatype error =
    InvalidCredentials
  | VaultLocked
  | AuthenticationFailed
  | NotFound
  | InvalidParams
  | RekeyAborted
  | ImportAuthenticationFailed
  | StorageFailure

text \<open>
  \<^verbatim>\<open>deriveKey(password, salt)\<close>: the encoded password is imported as the PBKDF2 base key,
  and a non-extractable 256-bit AES-GCM key for encryption and decryption is derived with
  100000 iterations of SHA-256. The promise has no rejecting branch in the source.
\<close>

definition deriveKey :: "platform \<Rightarrow> string \<Rightarrow> bytes \<Rightarrow> error + CryptoKey" where
  "deriveKey P password slt =
     (let baseKey = textEncode P password
      in Inr \<lparr>keyAlgorithm = ''AES-GCM'', keyLength = 256, extractable = False,
              usages = [''encrypt'', ''decrypt''],
              material = pbkdf2 P ''SHA-256'' baseKey slt 100000 256\<rparr>)"

text \<open>
  The body of \<^verbatim>\<open>encrypt\<close> after the text encoding: AES-GCM under the key with the IV,
  packaged with the IV and the algorithm tag.
\<close>

definition encryptBytes :: "platform \<Rightarrow> bytes \<Rightarrow> bytes \<Rightarrow> CryptoKey \<Rightarrow> error + EncryptedData" where
  "encryptBytes P nonce encoded k =
     Inr \<lparr>data = aesGcmEncrypt P (material k) nonce encoded, iv = nonce,
          algorithm = ''AES-GCM''\<rparr>"

text \<open>
  \<^verbatim>\<open>encrypt(data, key)\<close>; \<open>nonce\<close> stands for the 12 bytes that
  \<^verbatim>\<open>crypto.getRandomValues(new Uint8Array(12))\<close> returns.
\<close>

definition encrypt :: "platform \<Rightarrow> bytes \<Rightarrow> string \<Rightarrow> CryptoKey \<Rightarrow> error + EncryptedData" where
  "encrypt P nonce plain k = encryptBytes P nonce (textEncode P plain) k"

text \<open>
  Modelled from the spec: \<^verbatim>\<open>CipherService.decrypt(envelope, key)\<close>, which the source files do
  not contain. Nonce length and key length are fixed by the algorithm and validated on
  every call (\<open>InvalidParams\<close>); the call fails with \<open>AuthenticationFailed\<close> when the
  integrity tag does not verify, and otherwise returns the plaintext bytes.
\<close>

definition decrypt :: "platform \<Rightarrow> EncryptedData \<Rightarrow> CryptoKey \<Rightarrow> error + bytes" where
  "decrypt P env k =
     (if algorithm env \<noteq> ''AES-GCM'' \<or> length (iv env) \<noteq> 12 \<or>
         keyAlgorithm k \<noteq> ''AES-GCM'' \<or> keyLength k \<noteq> 256
      then Inl InvalidParams
      else case aesGcmDecrypt P (material k) (iv env) (data env) of
             None \<Rightarrow> Inl AuthenticationFailed
           | Some plain \<Rightarrow> Inr plain)"

text \<open>
  Modelled from the spec: the \<^verbatim>\<open>KdfParams\<close> record (section 3), which the source files do
  not declare.
\<close>

record KdfParams =
  iterations :: nat
  memoryCost :: "nat option"
  kdfAlgorithm :: string

text \<open>
  The spec's \<^verbatim>\<open>derive(password, salt, params)\<close> is the code's
  \<^verbatim>\<open>deriveKey(password, salt)\<close>: the function has no parameter through which a caller's KDF
  parameters could reach the derivation.
\<close>

definition derive :: "platform \<Rightarrow> string \<Rightarrow> bytes \<Rightarrow> KdfParams \<Rightarrow> error + CryptoKey" where
  "derive P password slt params = deriveKey P password slt"

section \<open>Key lifecycle (KeyManager)\<close>

text \<open>
  Modelled from the spec: the \<^verbatim>\<open>VaultMetadata\<close> record (section 3), whose declaration the
  source files do not contain; \<open>unlock\<close> reads its salt.
\<close>

record VaultMetadata =
  formatVersion :: int
  salt :: bytes
  kdfParams :: KdfParams
  keyCheckEnvelope :: EncryptedData

text \<open>
  The manager's two fields, together with the part of the JavaScript runtime they depend
  on: a millisecond clock, the pending timeouts as (handle, due time) in the order they
  were set (every callback the manager registers is \<^verbatim>\<open>() => this.lock()\<close>), and the number of
  handles issued so far (handles are positive integers). The trace records the calls
  that are visible outside the manager.
\<close>

datatype effect = ClearTimeout nat | ClearSensitiveState

record KeyManager =
  masterKey :: "CryptoKey option"
  autoLockTimer :: "nat option"
  now :: nat
  pending :: "(nat \<times> nat) list"
  issued :: nat
  trace :: "effect list"

text \<open>
  The helpers the class calls but the source does not show: \<^verbatim>\<open>getVaultMetadata\<close> and
  \<^verbatim>\<open>this.deriveKey\<close> may throw (\<open>None\<close>); \<^verbatim>\<open>verifyKey\<close> returns normally (\<open>True\<close>) or
  throws (\<open>False\<close>) depending on the key just stored.
\<close>

record km_deps =
  getVaultMetadata :: "VaultMetadata option"
  managerDeriveKey :: "string \<Rightarrow> bytes \<Rightarrow> CryptoKey option"
  verifyKey :: "CryptoKey \<Rightarrow> bool"

definition clearTimeout :: "nat \<Rightarrow> KeyManager \<Rightarrow> KeyManager" where
  "clearTimeout h s =
     s\<lparr>pending := filter (\<lambda>(h', due). h' \<noteq> h) (pending s),
       trace := trace s @ [ClearTimeout h]\<rparr>"

text \<open>\<^verbatim>\<open>if (this.autoLockTimer)\<close> is false for \<^verbatim>\<open>null\<close> and for the number 0.\<close>

definition lock :: "KeyManager \<Rightarrow> KeyManager" where
  "lock s =
     (let s1 = s\<lparr>masterKey := None\<rparr>;
          s2 = (case autoLockTimer s1 of
                  None \<Rightarrow> s1
                | Some h \<Rightarrow> if h \<noteq> 0 then (clearTimeout h s1)\<lparr>autoLockTimer := None\<rparr> else s1)
      in s2\<lparr>trace := trace s2 @ [ClearSensitiveState]\<rparr>)"

definition setAutoLockTimer :: "KeyManager \<Rightarrow> KeyManager" where
  "setAutoLockTimer s =
     (let timeout = 15 * 60 * 1000;
          h = Suc (issued s)
      in s\<lparr>pending := pending s @ [(h, now s + timeout)], issued := h,
           autoLockTimer := Some h\<rparr>)"

definition unlock :: "km_deps \<Rightarrow> string \<Rightarrow> KeyManager \<Rightarrow> KeyManager \<times> bool" where
  "unlock D password s =
     (case getVaultMetadata D of
        None \<Rightarrow> (lock s, False)
      | Some metadata \<Rightarrow>
          (case managerDeriveKey D password (salt metadata) of
             None \<Rightarrow> (lock s, False)
           | Some k \<Rightarrow>
               (let s1 = s\<lparr>masterKey := Some k\<rparr>
                in if verifyKey D k then (setAutoLockTimer s1, True)
                   else (lock s1, False))))"

text \<open>
  The passage of time. The timeouts that are due are taken in the order of their due
  times; each one that is still pending when its turn comes is removed and its callback,
  \<open>lock\<close>, runs. No callback sets a timeout.
\<close>

primrec fire :: "(nat \<times> nat) list \<Rightarrow> KeyManager \<Rightarrow> KeyManager" where
  "fire [] s = s"
| "fire (t # ts) s =
     (if t \<in> set (pending s)
      then fire ts (lock (s\<lparr>pending := filter (\<lambda>t'. t' \<noteq> t) (pending s)\<rparr>))
      else fire ts s)"

definition elapse :: "nat \<Rightarrow> KeyManager \<Rightarrow> KeyManager" where
  "elapse d s =
     (let t = now s + d;
          due = sort_key snd (filter (\<lambda>(h, deadline). deadline \<le> t) (pending s))
      in (fire due s)\<lparr>now := t\<rparr>)"

section \<open>Encrypted storage (IndexedDBVaultStorage)\<close>

text \<open>
  The \<^verbatim>\<open>passwords\<close> object store maps an id to the stored object; \<^verbatim>\<open>put\<close> replaces the
  object with the same id. \<^verbatim>\<open>savePassword\<close> encrypts the serialised entry under the
  storage object's key and stores the result; it touches nothing else.
\<close>

record IndexedDBVaultStorage =
  passwords :: "(string \<times> EncryptedData) list"
  storageKey :: CryptoKey

definition store_put :: "string \<Rightarrow> EncryptedData \<Rightarrow> (string \<times> EncryptedData) list \<Rightarrow> (string \<times> EncryptedData) list" where
  "store_put i e os = filter (\<lambda>(j, x). j \<noteq> i) os @ [(i, e)]"

definition savePassword ::
    "platform \<Rightarrow> bytes \<Rightarrow> string \<Rightarrow> string \<Rightarrow> IndexedDBVaultStorage \<Rightarrow> IndexedDBVaultStorage" where
  "savePassword P nonce ident json st =
     (case encrypt P nonce json (storageKey st) of
        Inl e \<Rightarrow> st
      | Inr encrypted \<Rightarrow> st\<lparr>passwords := store_put ident encrypted (passwords st)\<rparr>)"

text \<open>The application: a key manager and a storage object, driven by time and by saves.\<close>

record app =
  manager :: KeyManager
  storage :: IndexedDBVaultStorage

datatype event = Elapse nat | SavePassword bytes string string

primrec step :: "platform \<Rightarrow> event \<Rightarrow> app \<Rightarrow> app" where
  "step P (Elapse d) w = w\<lparr>manager := elapse d (manager w)\<rparr>"
| "step P (SavePassword nonce ident json) w =
     w\<lparr>storage := savePassword P nonce ident json (storage w)\<rparr>"

primrec run :: "platform \<Rightarrow> event list \<Rightarrow> app \<Rightarrow> app" where
  "run P [] w = w"
| "run P (e # es) w = run P es (step P e w)"

primrec elapsed :: "event list \<Rightarrow> nat" where
  "elapsed [] = 0"
| "elapsed (e # es) = (case e of Elapse d \<Rightarrow> d | SavePassword n i j \<Rightarrow> 0) + elapsed es"

section \<open>Rekey and bundle import\<close>

text \<open>
  Modelled from the spec: the stored \<^verbatim>\<open>Record\<close> (section 3), which the source files do not
  declare: an id, a category, the encrypted envelope and a modification time.
\<close>

record Record =
  recordId :: string
  recordCategory :: string
  envelope :: EncryptedData
  lastModified :: nat

text \<open>
  Modelled from the spec: the vault as the engine sees it (sections 2 and 3), namely the
  stored metadata, the stored records, and the key the manager holds in memory while
  unlocked; and the export bundle, metadata together with records.
\<close>

record vault =
  vaultMetadata :: VaultMetadata
  vaultRecords :: "Record list"
  vaultKey :: "CryptoKey option"

record VaultBundle =
  bundleMetadata :: VaultMetadata
  bundleRecords :: "Record list"

text \<open>
  Modelled from the spec: \<^verbatim>\<open>CipherService.encrypt(plaintext, key)\<close> as the engine calls it
  (section 4.2). Nonce length and key length are fixed by the algorithm and validated on
  every call (\<open>InvalidParams\<close>); the encryption itself is the code's.
\<close>

definition cipherEncrypt :: "platform \<Rightarrow> bytes \<Rightarrow> bytes \<Rightarrow> CryptoKey \<Rightarrow> error + EncryptedData" where
  "cipherEncrypt P nonce payload k =
     (if length nonce \<noteq> 12 \<or> keyAlgorithm k \<noteq> ''AES-GCM'' \<or> keyLength k \<noteq> 256
      then Inl InvalidParams
      else encryptBytes P nonce payload k)"

text \<open>
  Modelled from the spec: the first half of rekey's decrypt-all-then-encrypt-all, which
  the source files do not contain. Every record's envelope is decrypted under the old
  key; the first failure ends the pass.
\<close>

fun decryptAll :: "platform \<Rightarrow> CryptoKey \<Rightarrow> Record list \<Rightarrow> error + (Record \<times> bytes) list" where
  "decryptAll P old [] = Inr []"
| "decryptAll P old (r # rs) =
     (case decrypt P (envelope r) old of
        Inl e \<Rightarrow> Inl e
      | Inr plain \<Rightarrow>
          (case decryptAll P old rs of
             Inl e \<Rightarrow> Inl e
           | Inr ps \<Rightarrow> Inr ((r, plain) # ps)))"

text \<open>
  Modelled from the spec: the second half. The plaintext of the \<open>i\<close>-th record is
  encrypted under the new key with a fresh nonce (\<open>rnd (Suc i)\<close>; \<open>rnd\<close> is the
  randomness drawn, \<open>rnd 0\<close> going to the key check) and staged as the record's new
  envelope, id and category unchanged. The forced failure of section 8 is \<open>fault\<close>: where
  \<open>fault i\<close> holds, the re-encryption of the \<open>i\<close>-th record fails. The first failure ends
  the pass.
\<close>

fun encryptAll ::
    "platform \<Rightarrow> (nat \<Rightarrow> bool) \<Rightarrow> CryptoKey \<Rightarrow> (nat \<Rightarrow> bytes) \<Rightarrow> nat \<Rightarrow> (Record \<times> bytes) list \<Rightarrow>
     error + Record list" where
  "encryptAll P fault new rnd i [] = Inr []"
| "encryptAll P fault new rnd i ((r, plain) # ps) =
     (if fault i then Inl StorageFailure
      else case cipherEncrypt P (rnd (Suc i)) plain new of
             Inl e \<Rightarrow> Inl e
           | Inr env \<Rightarrow>
               (case encryptAll P fault new rnd (Suc i) ps of
                  Inl e \<Rightarrow> Inl e
                | Inr staged \<Rightarrow> Inr (r\<lparr>envelope := env\<rparr> # staged)))"

text \<open>
  Modelled from the spec: the staging of a rekey, the two passes one after the other. No
  record is written while staging.
\<close>

definition stageAll ::
    "platform \<Rightarrow> (nat \<Rightarrow> bool) \<Rightarrow> CryptoKey \<Rightarrow> CryptoKey \<Rightarrow> (nat \<Rightarrow> bytes) \<Rightarrow> Record list \<Rightarrow>
     error + Record list" where
  "stageAll P fault old new rnd rs =
     (case decryptAll P old rs of
        Inl e \<Rightarrow> Inl e
      | Inr ps \<Rightarrow> encryptAll P fault new rnd 0 ps)"

text \<open>
  Modelled from the spec: what a rekey writes to the untrusted store, in order: the staged
  records as one batch, then the metadata.
\<close>

datatype store_write = PutRecords "Record list" | SaveMetadata VaultMetadata

text \<open>
  Modelled from the spec: \<^verbatim>\<open>rekey(newPassword)\<close>, which the source files do not contain.
  Outside \<open>Unlocked\<close> it fails with \<open>VaultLocked\<close> and performs no I/O. It takes a new salt,
  derives a new key, stages the re-encryption of every record and encrypts the known
  constant under the new key; when any of that fails it aborts with \<open>RekeyAborted\<close>,
  having written nothing, the vault as it was. Only then are the staged records committed
  as one batch, the metadata written with the new salt and the new key-check envelope,
  and the new key kept. The result is the vault afterwards, the writes made, and the
  outcome.
\<close>

definition rekey ::
    "platform \<Rightarrow> bytes \<Rightarrow> (nat \<Rightarrow> bool) \<Rightarrow> (nat \<Rightarrow> bytes) \<Rightarrow> bytes \<Rightarrow> string \<Rightarrow> vault \<Rightarrow>
     vault \<times> store_write list \<times> (error + unit)" where
  "rekey P known fault rnd newSalt newPassword v =
     (case vaultKey v of
        None \<Rightarrow> (v, [], Inl VaultLocked)
      | Some old \<Rightarrow>
          (case derive P newPassword newSalt (kdfParams (vaultMetadata v)) of
             Inl e \<Rightarrow> (v, [], Inl e)
           | Inr new \<Rightarrow>
               (case stageAll P fault old new rnd (vaultRecords v) of
                  Inl e \<Rightarrow> (v, [], Inl RekeyAborted)
                | Inr staged \<Rightarrow>
                    (case cipherEncrypt P (rnd 0) known new of
                       Inl e \<Rightarrow> (v, [], Inl RekeyAborted)
                     | Inr check \<Rightarrow>
                         (let m = (vaultMetadata v)\<lparr>salt := newSalt, keyCheckEnvelope := check\<rparr>
                          in (\<lparr>vaultMetadata = m, vaultRecords = staged, vaultKey = Some new\<rparr>,
                              [PutRecords staged, SaveMetadata m],
                              Inr ()))))))"

text \<open>
  Modelled from the spec: the check of a password against a key-check envelope. The key
  derived from the password and the metadata's salt and parameters must decrypt the
  envelope to the known constant.
\<close>

definition verifyKeyCheck :: "platform \<Rightarrow> bytes \<Rightarrow> string \<Rightarrow> VaultMetadata \<Rightarrow> bool" where
  "verifyKeyCheck P known password m =
     (case derive P password (salt m) (kdfParams m) of
        Inl e \<Rightarrow> False
      | Inr k \<Rightarrow> decrypt P (keyCheckEnvelope m) k = Inr known)"

text \<open>
  Modelled from the spec: reading a stored record with a password. The key is derived from
  the password and the metadata's salt and parameters, and the record's envelope is
  decrypted under it.
\<close>

definition openRecord :: "platform \<Rightarrow> string \<Rightarrow> VaultMetadata \<Rightarrow> Record \<Rightarrow> error + bytes" where
  "openRecord P password m r =
     (case derive P password (salt m) (kdfParams m) of
        Inl e \<Rightarrow> Inl e
      | Inr k \<Rightarrow> decrypt P (envelope r) k)"

text \<open>
  Modelled from the spec: \<^verbatim>\<open>importBundle(bundle, password)\<close>, which the source files do not
  contain. The bundle's key-check envelope is verified against the password first; on
  failure the call fails with \<open>ImportAuthenticationFailed\<close> and the local vault is as it
  was; on success the local metadata and records are replaced by the bundle's.
\<close>

definition importBundle ::
    "platform \<Rightarrow> bytes \<Rightarrow> VaultBundle \<Rightarrow> string \<Rightarrow> vault \<Rightarrow> vault \<times> (error + unit)" where
  "importBundle P known bundle password v =
     (if verifyKeyCheck P known password (bundleMetadata bundle)
      then (v\<lparr>vaultMetadata := bundleMetadata bundle, vaultRecords := bundleRecords bundle\<rparr>,
            Inr ())
      else (v, Inl ImportAuthenticationFailed))"

section \<open>Subscription analytics (SubscriptionAnalytics)\<close>

text \<open>
  JavaScript numbers are IEEE 754 doubles. The analytics are written over an arbitrary
  number type with the operations the code uses: addition, multiplication, division, the
  number a numeric literal denotes, the value \<^verbatim>\<open>NaN\<close>, and the test \<^verbatim>\<open>x || 1\<close> applies
  to a number (a number is falsy when it is zero or \<^verbatim>\<open>NaN\<close>).
\<close>

record 'n arith =
  fadd :: "'n \<Rightarrow> 'n \<Rightarrow> 'n"
  fmul :: "'n \<Rightarrow> 'n \<Rightarrow> 'n"
  fdiv :: "'n \<Rightarrow> 'n \<Rightarrow> 'n"
  lit :: "rat \<Rightarrow> 'n"
  nan :: 'n
  falsy :: "'n \<Rightarrow> bool"

text \<open>The fields of a subscription that the analytics read; a category may be absent.\<close>

record 'n SubscriptionEntry =
  cost :: 'n
  billingCycle :: string
  currency :: string
  category :: "string option"
  isActive :: bool

record 'n CurrencySettings =
  baseCurrency :: string
  exchangeRates :: "string \<rightharpoonup> 'n"

definition DEFAULT_CURRENCY_SETTINGS :: "'n arith \<Rightarrow> 'n CurrencySettings" where
  "DEFAULT_CURRENCY_SETTINGS A =
     \<lparr>baseCurrency = ''USD'',
      exchangeRates = map_of
        [(''USD'', lit A 1), (''EUR'', lit A (85 / 100)), (''GBP'', lit A (73 / 100)),
         (''CAD'', lit A (136 / 100)), (''AUD'', lit A (152 / 100)),
         (''JPY'', lit A (1495 / 10))]\<rparr>"

text \<open>One entry of \<^verbatim>\<open>categoryData\<close>.\<close>

record 'n totals =
  monthly :: 'n
  yearly :: 'n
  count :: nat
  subscriptions :: "'n SubscriptionEntry list"

datatype js_error = TypeError

text \<open>
  \<^verbatim>\<open>exchangeRates\<close> is a plain object, an object literal or the result of \<^verbatim>\<open>JSON.parse\<close>;
  the record's map holds its own properties. Reading a property of a plain object finds
  an own property first, then a member inherited from \<^verbatim>\<open>Object.prototype\<close>, and yields
  \<^verbatim>\<open>undefined\<close> otherwise. The inherited members are functions, and the prototype object
  itself under \<^verbatim>\<open>__proto__\<close>.
\<close>

datatype 'n js_value = NumberValue 'n | InheritedMember | Undefined

definition objectPrototypeMembers :: "string list" where
  "objectPrototypeMembers =
     [''constructor'', ''__defineGetter__'', ''__defineSetter__'', ''hasOwnProperty'',
      ''__lookupGetter__'', ''__lookupSetter__'', ''isPrototypeOf'', ''propertyIsEnumerable'',
      ''toString'', ''valueOf'', ''__proto__'', ''toLocaleString'']"

definition getRate :: "'n CurrencySettings \<Rightarrow> string \<Rightarrow> 'n js_value" where
  "getRate cs c =
     (case exchangeRates cs c of
        Some r \<Rightarrow> NumberValue r
      | None \<Rightarrow> if c \<in> set objectPrototypeMembers then InheritedMember else Undefined)"

text \<open>
  \<^verbatim>\<open>currencySettings.exchangeRates[c] || 1\<close>, as the number it stands for in the division
  and the multiplication that follow: \<^verbatim>\<open>undefined\<close> and a falsy number give 1; an inherited
  member is truthy, so it is kept, and as a number it is \<^verbatim>\<open>NaN\<close>.
\<close>

definition rate_or_one :: "'n arith \<Rightarrow> 'n CurrencySettings \<Rightarrow> string \<Rightarrow> 'n" where
  "rate_or_one A cs c =
     (case getRate cs c of
        Undefined \<Rightarrow> lit A 1
      | NumberValue r \<Rightarrow> if falsy A r then lit A 1 else r
      | InheritedMember \<Rightarrow> nan A)"

definition convertToBaseCurrency :: "'n arith \<Rightarrow> 'n CurrencySettings \<Rightarrow> 'n \<Rightarrow> string \<Rightarrow> 'n" where
  "convertToBaseCurrency A cs amount fromCurrency =
     (let fromRate = rate_or_one A cs fromCurrency;
          baseCurrencyRate = rate_or_one A cs (baseCurrency cs)
      in fmul A (fdiv A amount fromRate) baseCurrencyRate)"

text \<open>The \<^verbatim>\<open>switch\<close> on the billing cycle.\<close>

definition monthlyAmount :: "'n arith \<Rightarrow> 'n SubscriptionEntry \<Rightarrow> 'n" where
  "monthlyAmount A sub =
     (if billingCycle sub = ''yearly'' then fdiv A (cost sub) (lit A 12)
      else if billingCycle sub = ''weekly'' then fmul A (cost sub) (lit A (433 / 100))
      else if billingCycle sub = ''daily'' then fmul A (cost sub) (lit A 30)
      else cost sub)"

text \<open>\<^verbatim>\<open>sub.category || 'Other'\<close>\<close>

definition categoryOf :: "'n SubscriptionEntry \<Rightarrow> string" where
  "categoryOf sub =
     (case category sub of None \<Rightarrow> ''Other'' | Some c \<Rightarrow> if c = [] then ''Other'' else c)"

definition convertedMonthlyAmount ::
    "'n arith \<Rightarrow> 'n CurrencySettings \<Rightarrow> 'n SubscriptionEntry \<Rightarrow> 'n" where
  "convertedMonthlyAmount A cs sub =
     convertToBaseCurrency A cs (monthlyAmount A sub) (currency sub)"

text \<open>
  \<^verbatim>\<open>SUBSCRIPTION_CATEGORIES\<close> comes from the shared schema, which the source files do not
  contain; it is the parameter \<open>cats\<close>. Every category starts with zero spending.
\<close>

definition initCategories :: "'n arith \<Rightarrow> string list \<Rightarrow> (string \<rightharpoonup> 'n totals)" where
  "initCategories A cats =
     foldl (\<lambda>categoryData c.
        categoryData(c \<mapsto> \<lparr>monthly = lit A 0, yearly = lit A 0, count = 0, subscriptions = []\<rparr>))
       Map.empty cats"

text \<open>
  The body of the loop over the active subscriptions. When the subscription's category
  has no entry, \<^verbatim>\<open>categoryData[category]\<close> is \<^verbatim>\<open>undefined\<close> and the update throws; for a name
  that \<^verbatim>\<open>categoryData\<close> inherits from \<^verbatim>\<open>Object.prototype\<close> the lookup finds the inherited
  member, which has no \<^verbatim>\<open>subscriptions\<close>, and the throw comes from
  \<^verbatim>\<open>.subscriptions.push\<close>.
\<close>

definition addSubscription ::
    "'n arith \<Rightarrow> 'n CurrencySettings \<Rightarrow> js_error + (string \<rightharpoonup> 'n totals) \<Rightarrow>
     'n SubscriptionEntry \<Rightarrow> js_error + (string \<rightharpoonup> 'n totals)" where
  "addSubscription A cs acc sub =
     (case acc of
        Inl e \<Rightarrow> Inl e
      | Inr categoryData \<Rightarrow>
          (let c = categoryOf sub;
               converted = convertedMonthlyAmount A cs sub
           in case categoryData c of
                None \<Rightarrow> Inl TypeError
              | Some t \<Rightarrow>
                  Inr (categoryData(c \<mapsto>
                    \<lparr>monthly = fadd A (monthly t) converted,
                     yearly = fadd A (yearly t) (fmul A converted (lit A 12)),
                     count = count t + 1,
                     subscriptions = subscriptions t @ [sub]\<rparr>))))"

definition categoryAnalytics ::
    "'n arith \<Rightarrow> string list \<Rightarrow> 'n CurrencySettings \<Rightarrow> 'n SubscriptionEntry list \<Rightarrow>
     js_error + (string \<rightharpoonup> 'n totals)" where
  "categoryAnalytics A cats cs subs =
     foldl (addSubscription A cs) (Inr (initCategories A cats)) (filter isActive subs)"

text \<open>The active subscriptions that count towards a category, in their order.\<close>

definition inCategory :: "string \<Rightarrow> 'n SubscriptionEntry list \<Rightarrow> 'n SubscriptionEntry list" where
  "inCategory c subs = filter (\<lambda>sub. isActive sub \<and> categoryOf sub = c) subs"

text \<open>
  Double precision on the rationals, for magnitudes in the normal range: a nonzero value
  is scaled by a power of two into \<open>[2^52, 2^53)\<close>, rounded there to the nearest integer
  with ties going to the even one, and scaled back.
\<close>

definition nearest_even :: "rat \<Rightarrow> int" where
  "nearest_even q =
     (let n = \<lfloor>q\<rfloor>; r = q - of_int n
      in if r < 1 / 2 then n else if 1 / 2 < r then n + 1 else if even n then n else n + 1)"

fun normalise :: "nat \<Rightarrow> rat \<Rightarrow> rat \<Rightarrow> rat \<times> rat" where
  "normalise 0 q s = (q, s)"
| "normalise (Suc fuel) q s =
     (if q < 2 ^ 52 then normalise fuel (q * 2) (s / 2)
      else if 2 ^ 53 \<le> q then normalise fuel (q / 2) (s * 2)
      else (q, s))"

definition dbl :: "rat \<Rightarrow> rat" where
  "dbl x =
     (if x = 0 then 0
      else let (q, s) = normalise 2200 \<bar>x\<bar> 1
           in sgn x * of_int (nearest_even q) * s)"

text \<open>
  Double-precision numbers: \<open>None\<close> is \<^verbatim>\<open>NaN\<close>, which every operation passes on, and
  each operation on two numbers rounds its exact result. A division by zero does not
  arise in the analytics (the divisors are 12, 1, a rate that is not falsy, or \<^verbatim>\<open>NaN\<close>)
  and is given \<open>None\<close> here.
\<close>

definition double_arith :: "rat option arith" where
  "double_arith =
     \<lparr>fadd = (\<lambda>x y. case (x, y) of (Some a, Some b) \<Rightarrow> Some (dbl (a + b)) | _ \<Rightarrow> None),
      fmul = (\<lambda>x y. case (x, y) of (Some a, Some b) \<Rightarrow> Some (dbl (a * b)) | _ \<Rightarrow> None),
      fdiv = (\<lambda>x y. case (x, y) of
                (Some a, Some b) \<Rightarrow> if b = 0 then None else Some (dbl (a / b))
              | _ \<Rightarrow> None),
      lit = (\<lambda>q. Some (dbl q)),
      nan = None,
      falsy = (\<lambda>x. x = Some 0 \<or> x = None)\<rparr>"

text \<open>Exact rational arithmetic with \<^verbatim>\<open>NaN\<close>, for comparison.\<close>

definition exact_arith :: "rat option arith" where
  "exact_arith =
     \<lparr>fadd = (\<lambda>x y. case (x, y) of (Some a, Some b) \<Rightarrow> Some (a + b) | _ \<Rightarrow> None),
      fmul = (\<lambda>x y. case (x, y) of (Some a, Some b) \<Rightarrow> Some (a * b) | _ \<Rightarrow> None),
      fdiv = (\<lambda>x y. case (x, y) of
                (Some a, Some b) \<Rightarrow> if b = 0 then None else Some (a / b)
              | _ \<Rightarrow> None),
      lit = (\<lambda>q. Some q),
      nan = None,
      falsy = (\<lambda>x. x = Some 0 \<or> x = None)\<rparr>"

section \<open>Concrete inputs\<close>

text \<open>
  A stand-in for the platform on which the definitions can be evaluated. It is not a
  cipher: the "key" is the password followed by the salt, and "encryption" prefixes the
  plaintext with the key and the nonce, which "decryption" checks and strips.
\<close>

definition toy_platform :: platform where
  "toy_platform =
     \<lparr>textEncode = map (\<lambda>c. of_nat (of_char c)),
      pbkdf2 = (\<lambda>h pw slt n len. pw @ slt),
      aesGcmEncrypt = (\<lambda>k n p. k @ n @ p),
      aesGcmDecrypt = (\<lambda>k n c.
         if take (length k + length n) c = k @ n
         then Some (drop (length k + length n) c) else None)\<rparr>"

definition nonce12 :: "8 word \<Rightarrow> bytes" where
  "nonce12 b = [b, b, b, b, b, b, b, b, b, b, b, b]"

definition toy_salt :: bytes where
  "toy_salt = [1, 2, 3, 4, 5, 6, 7, 8, 9, 10, 11, 12, 13, 14, 15, 16]"

definition toy_known :: bytes where
  "toy_known = [75, 67]"

definition toy_params :: KdfParams where
  "toy_params = \<lparr>iterations = 100000, memoryCost = None, kdfAlgorithm = ''PBKDF2''\<rparr>"

definition weak_params :: KdfParams where
  "weak_params = \<lparr>iterations = 0, memoryCost = None, kdfAlgorithm = ''PBKDF2''\<rparr>"

definition toy_key :: "string \<Rightarrow> CryptoKey" where
  "toy_key password = projr (deriveKey toy_platform password toy_salt)"

definition toy_metadata :: VaultMetadata where
  "toy_metadata =
     \<lparr>formatVersion = 1, salt = toy_salt, kdfParams = toy_params,
      keyCheckEnvelope =
        projr (encryptBytes toy_platform (nonce12 0) toy_known (toy_key ''hunter2''))\<rparr>"

definition toy_deps :: km_deps where
  "toy_deps =
     \<lparr>getVaultMetadata = Some toy_metadata,
      managerDeriveKey = (\<lambda>password slt.
         case deriveKey toy_platform password slt of Inl e \<Rightarrow> None | Inr k \<Rightarrow> Some k),
      verifyKey = (\<lambda>k. decrypt toy_platform (keyCheckEnvelope toy_metadata) k = Inr toy_known)\<rparr>"

definition fresh_manager :: KeyManager where
  "fresh_manager =
     \<lparr>masterKey = None, autoLockTimer = None, now = 0, pending = [], issued = 0, trace = []\<rparr>"

definition armed_manager :: KeyManager where
  "armed_manager = fst (unlock toy_deps ''hunter2'' fresh_manager)"


definition toy_storage :: IndexedDBVaultStorage where
  "toy_storage = \<lparr>passwords = [], storageKey = toy_key ''hunter2''\<rparr>"

definition good_record :: Record where
  "good_record =
     \<lparr>recordId = ''p1'', recordCategory = ''Password'',
      envelope = projr (encrypt toy_platform (nonce12 1) ''example.com'' (toy_key ''hunter2'')),
      lastModified = 1\<rparr>"

definition tampered_record :: Record where
  "tampered_record =
     \<lparr>recordId = ''p2'', recordCategory = ''Note'',
      envelope = \<lparr>data = [0, 0, 0], iv = nonce12 2, algorithm = ''AES-GCM''\<rparr>,
      lastModified = 2\<rparr>"

definition damaged_vault :: vault where
  "damaged_vault =
     \<lparr>vaultMetadata = toy_metadata, vaultRecords = [good_record, tampered_record],
      vaultKey = Some (toy_key ''hunter2'')\<rparr>"

definition second_record :: Record where
  "second_record =
     \<lparr>recordId = ''n1'', recordCategory = ''Note'',
      envelope = projr (encrypt toy_platform (nonce12 3) ''memo'' (toy_key ''hunter2'')),
      lastModified = 2\<rparr>"

definition healthy_vault :: vault where
  "healthy_vault =
     \<lparr>vaultMetadata = toy_metadata, vaultRecords = [good_record, second_record],
      vaultKey = Some (toy_key ''hunter2'')\<rparr>"

definition no_fault :: "nat \<Rightarrow> bool" where
  "no_fault i = False"

definition fault_on_second :: "nat \<Rightarrow> bool" where
  "fault_on_second i = (i = 1)"

definition toy_rnd :: "nat \<Rightarrow> bytes" where
  "toy_rnd i = nonce12 (of_nat i)"

definition new_salt :: bytes where
  "new_salt = [16, 15, 14, 13, 12, 11, 10, 9, 8, 7, 6, 5, 4, 3, 2, 1]"

definition toy_bundle :: VaultBundle where
  "toy_bundle = \<lparr>bundleMetadata = toy_metadata, bundleRecords = [good_record]\<rparr>"

definition isUnlocked :: "KeyManager \<Rightarrow> bool" where
  "isUnlocked s = (masterKey s \<noteq> None)"

definition idle_then_save_then_idle :: "event list" where
  "idle_then_save_then_idle =
     [Elapse 600000, SavePassword (nonce12 7) ''p1'' ''site'', Elapse 300000]"

definition save_before_expiry :: "event list" where
  "save_before_expiry = [Elapse 899999, SavePassword (nonce12 7) ''p1'' ''site'']"

text \<open>Two active monthly subscriptions in US dollars, costing 0.1 and 0.7.\<close>

definition streaming :: "'n arith \<Rightarrow> rat \<Rightarrow> 'n SubscriptionEntry" where
  "streaming A c =
     \<lparr>cost = lit A c, billingCycle = ''monthly'', currency = ''USD'',
      category = Some ''Streaming'', isActive = True\<rparr>"

text \<open>A subscription whose currency code is \<^verbatim>\<open>constructor\<close>.\<close>

definition odd_currency :: "'n arith \<Rightarrow> rat \<Rightarrow> 'n SubscriptionEntry" where
  "odd_currency A c =
     \<lparr>cost = lit A c, billingCycle = ''monthly'', currency = ''constructor'',
      category = Some ''Other'', isActive = True\<rparr>"


text \<open>A concrete offline situation: the network is down and a stale copy sits in a cache.\<close>

definition vault_items_request :: request where
  "vault_items_request =
     \<lparr>req_method = ''GET'', req_url = ''https://vault.test/api/vault/items'',
      pathname = ''/api/vault/items'', destination = ''empty''\<rparr>"

definition stale_copy :: response where
  "stale_copy = \<lparr>status = 200, statusText = ''OK'', body = ''stale'', contentType = None\<rparr>"

definition offline_env :: sw_env where
  "offline_env =
     \<lparr>fetch = (\<lambda>r. None),
      caches = [(DYNAMIC_CACHE, ''https://vault.test/api/vault/items'', stale_copy)]\<rparr>"

section \<open>Sensitive endpoints are never cached\<close>

lemma shouldUseNetworkOnly_iff:
  "shouldUseNetworkOnly path \<longleftrightarrow>
     prefix ''/api/vault'' path \<or> prefix ''/api/passwords'' path \<or>
     prefix ''/api/subscriptions'' path \<or> prefix ''/api/auth'' path \<or>
     prefix ''/api/session'' path"
  unfolding shouldUseNetworkOnly_def NETWORK_ONLY_URLS_def by simp

text \<open>
  Claim C9. For a GET request whose pathname starts with one of \<^verbatim>\<open>/api/vault\<close>,
  \<^verbatim>\<open>/api/passwords\<close>, \<^verbatim>\<open>/api/subscriptions\<close>, \<^verbatim>\<open>/api/auth\<close>, \<^verbatim>\<open>/api/session\<close>,
  \<open>handleFetchRequest\<close> issues no \<^verbatim>\<open>cache.put\<close> and returns the live network response
  when the fetch resolves and the synthetic 503 response when it rejects; the cache
  storage is never consulted for the answer.
\<close>

theorem sensitive_request_never_cached:
  assumes "req_method req = ''GET''"
    and "prefix ''/api/vault'' (pathname req) \<or> prefix ''/api/passwords'' (pathname req) \<or>
         prefix ''/api/subscriptions'' (pathname req) \<or> prefix ''/api/auth'' (pathname req) \<or>
         prefix ''/api/session'' (pathname req)"
  shows "snd (handleFetchRequest env req) = [] \<and>
         fst (handleFetchRequest env req) =
           (case fetch env req of Some live \<Rightarrow> Some live | None \<Rightarrow> Some sensitive_unavailable) \<and>
         handleFetchRequest (env\<lparr>caches := other\<rparr>) req = handleFetchRequest env req"
proof -
  from assms(2) have only: "shouldUseNetworkOnly (pathname req)"
    by (simp only: shouldUseNetworkOnly_iff)
  then have run: "\<And>e. handleFetchRequest e req = networkOnlyStrategy e req"
    by (simp add: handleFetchRequest_def)
  show ?thesis
    by (simp add: run networkOnlyStrategy_def split: option.split)
qed

theorem sensitive_request_never_cached_witness:
  "req_method vault_items_request = ''GET'' \<and>
   prefix ''/api/vault'' (pathname vault_items_request) \<and>
   handleFetchRequest offline_env vault_items_request = (Some sensitive_unavailable, [])"
proof -
  have m: "req_method vault_items_request = ''GET''"
    by (simp add: vault_items_request_def)
  have p: "prefix ''/api/vault'' (pathname vault_items_request)"
    by (simp add: vault_items_request_def)
  have "snd (handleFetchRequest offline_env vault_items_request) = [] \<and>
        fst (handleFetchRequest offline_env vault_items_request) = Some sensitive_unavailable"
    using sensitive_request_never_cached [of vault_items_request offline_env, OF m] p
    by (simp add: offline_env_def)
  then have "handleFetchRequest offline_env vault_items_request = (Some sensitive_unavailable, [])"
    by (simp add: prod_eq_iff)
  with m p show ?thesis by simp
qed

section \<open>Encryption round trip\<close>

lemma toy_platform_aead_correct: "aead_correct toy_platform"
  by (simp add: aead_correct_def toy_platform_def)

lemma derive_total: "\<exists>k. derive P password slt params = Inr k"
  by (simp add: derive_def deriveKey_def)

lemmas toy_defs = toy_platform_def toy_key_def toy_metadata_def toy_salt_def toy_known_def
  toy_params_def nonce12_def deriveKey_def derive_def encryptBytes_def encrypt_def decrypt_def

text \<open>
  Claim C1. For every plaintext, password, salt and KDF parameters, the key
  \<open>k = derive(W, salt, params)\<close> exists, encryption under \<open>k\<close> produces an envelope, and
  \<open>decrypt\<close> of that envelope under the same \<open>k\<close> returns exactly the plaintext bytes that
  were encrypted: any byte payload handed to the cipher, and for \<open>encrypt(data, key)\<close>
  the encoding of the string it is given. The platform's AES-GCM is assumed to decrypt what
  it encrypted under the same key and IV, and the nonce is the 12 bytes the code draws.
\<close>

theorem encrypt_decrypt_roundtrip:
  assumes "aead_correct P" and "length nonce = 12"
  shows "\<exists>k. derive P W slt params = Inr k \<and>
           (\<exists>env. encryptBytes P nonce payload k = Inr env \<and> decrypt P env k = Inr payload) \<and>
           (\<exists>env. encrypt P nonce plain k = Inr env \<and>
                  decrypt P env k = Inr (textEncode P plain))"
  using assms
  by (simp add: derive_def deriveKey_def encrypt_def encryptBytes_def decrypt_def
      aead_correct_def)

theorem encrypt_decrypt_roundtrip_witness:
  "aead_correct toy_platform \<and> length (nonce12 7) = 12 \<and>
   (\<exists>k. derive toy_platform ''hunter2'' toy_salt toy_params = Inr k \<and>
      (\<exists>env. encryptBytes toy_platform (nonce12 7) [0, 255, 128] k = Inr env \<and>
             decrypt toy_platform env k = Inr [0, 255, 128]) \<and>
      (\<exists>env. encrypt toy_platform (nonce12 7) ''example.com'' k = Inr env \<and>
             decrypt toy_platform env k = Inr (textEncode toy_platform ''example.com'')))"
proof -
  have len: "length (nonce12 7) = 12"
    by (simp add: nonce12_def)
  from encrypt_decrypt_roundtrip [OF toy_platform_aead_correct len]
  show ?thesis using toy_platform_aead_correct len by blast
qed

section \<open>Key derivation has no parameter check\<close>

text \<open>
  With an iteration count of 0, below any positive floor, the derivation still yields
  the key: the parameters never reach it.
\<close>

theorem derive_low_iterations_counterexample:
  "iterations weak_params = 0 \<and>
   derive toy_platform ''hunter2'' toy_salt weak_params = Inr (toy_key ''hunter2'')"
  by (simp add: weak_params_def derive_def toy_key_def deriveKey_def)

text \<open>
  Claim C8, as amended. \<open>deriveKey(password, salt)\<close> takes no KDF parameters: whatever
  parameters the caller holds, it runs PBKDF2 with SHA-256 and a fixed 100000 iterations,
  yields a non-extractable 256-bit AES-GCM key, and never fails with \<open>InvalidParams\<close>.
\<close>

theorem derive_ignores_params:
  "derive P password slt params =
     Inr \<lparr>keyAlgorithm = ''AES-GCM'', keyLength = 256, extractable = False,
          usages = [''encrypt'', ''decrypt''],
          material = pbkdf2 P ''SHA-256'' (textEncode P password) slt 100000 256\<rparr>"
  by (simp add: derive_def deriveKey_def)

section \<open>Unlock and lock\<close>

text \<open>
  Claim C5. When \<open>unlock(password)\<close> is called in the Locked state and the derived key
  fails verification, the manager ends Locked with no key in memory (the candidate key,
  stored for the verification, is discarded), the caller is told of the failure (the call
  resolves to \<open>false\<close>, the only failure signal \<open>unlock\<close> has, which stands for invalid
  credentials), and no auto-lock timer has been armed: but for the repeated
  \<open>clearSensitiveState\<close> call the manager is as it was.
\<close>

theorem unlock_wrong_password:
  assumes "masterKey s = None"
    and "getVaultMetadata D = Some m"
    and "managerDeriveKey D password (salt m) = Some k"
    and "\<not> verifyKey D k"
  shows "snd (unlock D password s) = False \<and>
         \<not> isUnlocked (fst (unlock D password s)) \<and>
         masterKey (fst (unlock D password s)) = None \<and>
         issued (fst (unlock D password s)) = issued s \<and>
         set (pending (fst (unlock D password s))) \<subseteq> set (pending s) \<and>
         (autoLockTimer s = None \<longrightarrow>
            fst (unlock D password s) = s\<lparr>trace := trace s @ [ClearSensitiveState]\<rparr>)"
  using assms
  by (auto simp add: unlock_def lock_def clearTimeout_def isUnlocked_def Let_def
      split: option.splits)

theorem unlock_wrong_password_witness:
  "masterKey fresh_manager = None \<and> autoLockTimer fresh_manager = None \<and>
   getVaultMetadata toy_deps = Some toy_metadata \<and>
   managerDeriveKey toy_deps ''wrong'' (salt toy_metadata) = Some (toy_key ''wrong'') \<and>
   \<not> verifyKey toy_deps (toy_key ''wrong'') \<and>
   unlock toy_deps ''wrong'' fresh_manager =
     (fresh_manager\<lparr>trace := [ClearSensitiveState]\<rparr>, False)"
proof -
  have a: "masterKey fresh_manager = None"
    by (simp add: fresh_manager_def)
  have b: "getVaultMetadata toy_deps = Some toy_metadata"
    by (simp add: toy_deps_def)
  have c: "managerDeriveKey toy_deps ''wrong'' (salt toy_metadata) = Some (toy_key ''wrong'')"
    by (simp add: toy_deps_def toy_defs)
  have d: "\<not> verifyKey toy_deps (toy_key ''wrong'')"
    by (simp add: toy_deps_def toy_defs)
  have e: "autoLockTimer fresh_manager = None \<and> trace fresh_manager = []"
    by (simp add: fresh_manager_def)
  from unlock_wrong_password [OF a b c d] e
  have "snd (unlock toy_deps ''wrong'' fresh_manager) = False \<and>
        fst (unlock toy_deps ''wrong'' fresh_manager) =
          fresh_manager\<lparr>trace := [ClearSensitiveState]\<rparr>"
    by simp
  then have "unlock toy_deps ''wrong'' fresh_manager =
               (fresh_manager\<lparr>trace := [ClearSensitiveState]\<rparr>, False)"
    by (simp add: prod_eq_iff)
  with a b c d e show ?thesis by simp
qed

lemma armed_manager_eq:
  "armed_manager =
     \<lparr>masterKey = Some (toy_key ''hunter2''), autoLockTimer = Some 1, now = 0,
      pending = [(1, 900000)], issued = 1, trace = []\<rparr>"
  by (simp add: armed_manager_def unlock_def toy_deps_def fresh_manager_def
      setAutoLockTimer_def Let_def toy_defs)

lemma armed_manager_unlocked:
  "unlock toy_deps ''hunter2'' fresh_manager = (armed_manager, True)"
  by (simp add: armed_manager_def unlock_def toy_deps_def fresh_manager_def
      setAutoLockTimer_def Let_def toy_defs)






section \<open>Auto-lock\<close>

lemma elapse_idle:
  "pending s = [] \<Longrightarrow> elapse d s = s\<lparr>now := now s + d\<rparr>"
  by (simp add: elapse_def)

lemma elapse_armed_early:
  "pending s = [(h, due)] \<Longrightarrow> now s + d < due \<Longrightarrow> elapse d s = s\<lparr>now := now s + d\<rparr>"
  by (simp add: elapse_def)

lemma elapse_armed_late:
  "pending s = [(h, due)] \<Longrightarrow> due \<le> now s + d \<Longrightarrow>
     masterKey (elapse d s) = None \<and> pending (elapse d s) = []"
  by (simp add: elapse_def lock_def clearTimeout_def Let_def split: option.split)

text \<open>Once locked with no timeout pending, neither time nor saves unlock the manager.\<close>

lemma run_idle:
  "masterKey (manager w) = None \<Longrightarrow> pending (manager w) = [] \<Longrightarrow>
     masterKey (manager (run P evs w)) = None"
proof (induction evs arbitrary: w)
  case Nil
  then show ?case by simp
next
  case (Cons e es)
  show ?case
  proof (cases e)
    case (Elapse d)
    with Cons.prems have "masterKey (manager (step P e w)) = None"
      and "pending (manager (step P e w)) = []"
      by (simp_all add: elapse_idle)
    then show ?thesis using Cons.IH by simp
  next
    case (SavePassword n i j)
    with Cons.prems have "masterKey (manager (step P e w)) = None"
      and "pending (manager (step P e w)) = []"
      by simp_all
    then show ?thesis using Cons.IH by simp
  qed
qed

text \<open>
  With the key in memory and exactly one timeout pending, the manager is unlocked at the
  end of a run exactly when the time that has passed stays short of the due time.
\<close>

lemma run_armed:
  "masterKey (manager w) = Some k \<Longrightarrow> pending (manager w) = [(h, due)] \<Longrightarrow>
   now (manager w) < due \<Longrightarrow>
     isUnlocked (manager (run P evs w)) \<longleftrightarrow> now (manager w) + elapsed evs < due"
proof (induction evs arbitrary: w)
  case Nil
  then show ?case by (simp add: isUnlocked_def)
next
  case (Cons e es)
  show ?case
  proof (cases e)
    case (Elapse d)
    show ?thesis
    proof (cases "now (manager w) + d < due")
      case True
      with Cons.prems have eq: "elapse d (manager w) = (manager w)\<lparr>now := now (manager w) + d\<rparr>"
        by (simp add: elapse_armed_early)
      have "isUnlocked (manager (run P es (step P e w))) \<longleftrightarrow>
              now (manager (step P e w)) + elapsed es < due"
        by (rule Cons.IH) (use Cons.prems True Elapse eq in simp_all)
      then show ?thesis using Elapse eq by (simp add: add.assoc)
    next
      case False
      with Cons.prems have late: "masterKey (elapse d (manager w)) = None"
        "pending (elapse d (manager w)) = []"
        using elapse_armed_late [of "manager w" h due d] by simp_all
      have "masterKey (manager (run P es (step P e w))) = None"
        by (rule run_idle) (use late Elapse in simp_all)
      then show ?thesis using False Elapse by (simp add: isUnlocked_def)
    qed
  next
    case (SavePassword n i j)
    have "isUnlocked (manager (run P es (step P e w))) \<longleftrightarrow>
            now (manager (step P e w)) + elapsed es < due"
      by (rule Cons.IH) (use Cons.prems SavePassword in simp_all)
    then show ?thesis using SavePassword by simp
  qed
qed

lemma unlock_success:
  "unlock D password s = (s1, True) \<Longrightarrow>
     \<exists>k. masterKey s1 = Some k \<and>
         pending s1 = pending s @ [(Suc (issued s), now s + 900000)] \<and> now s1 = now s"
  by (auto simp add: unlock_def setAutoLockTimer_def Let_def split: option.splits if_splits)

text \<open>
  After a successful unlock, ten minutes pass, a password is saved while the manager is
  still unlocked, and five more minutes pass. A timer reset by the save would now have
  ten minutes left; the manager is locked.
\<close>

theorem save_does_not_reset_timer_counterexample:
  "unlock toy_deps ''hunter2'' fresh_manager = (armed_manager, True) \<and>
   isUnlocked (manager (run toy_platform (take 2 idle_then_save_then_idle)
      \<lparr>manager = armed_manager, storage = toy_storage\<rparr>)) \<and>
   \<not> isUnlocked (manager (run toy_platform idle_then_save_then_idle
      \<lparr>manager = armed_manager, storage = toy_storage\<rparr>))"
  by (simp add: armed_manager_unlocked armed_manager_eq idle_then_save_then_idle_def
      elapse_def lock_def clearTimeout_def isUnlocked_def Let_def)

text \<open>
  Claim C7, as amended. While the manager is Unlocked, auto-lock transitions it to Locked
  a fixed 15 minutes (900000 ms) after the successful unlock that armed the timer,
  provided no timeout armed earlier is still pending when that unlock is made: however
  time and vault writes (\<open>savePassword\<close>) interleave after the unlock, the manager is
  Unlocked exactly as long as less than 15 minutes have passed since it. The window is not
  configurable and a vault write does not reset it; a write made before the expiry finds
  the manager Unlocked.
\<close>

theorem auto_lock_fixed_window:
  assumes "pending s = []" and "unlock D password s = (s1, True)"
  shows "isUnlocked (manager (run P evs \<lparr>manager = s1, storage = st\<rparr>)) \<longleftrightarrow>
           elapsed evs < 15 * 60 * 1000"
proof -
  from unlock_success [OF assms(2)] assms(1) obtain k where
    k: "masterKey s1 = Some k" and p: "pending s1 = [(Suc (issued s), now s + 900000)]"
    and n: "now s1 = now s"
    by auto
  have "isUnlocked (manager (run P evs \<lparr>manager = s1, storage = st\<rparr>)) \<longleftrightarrow>
          now (manager \<lparr>manager = s1, storage = st\<rparr>) + elapsed evs < now s + 900000"
    by (rule run_armed [where k = k and h = "Suc (issued s)"]) (use k p n in simp_all)
  then show ?thesis using n by simp
qed

theorem auto_lock_fixed_window_witness:
  "pending fresh_manager = [] \<and>
   unlock toy_deps ''hunter2'' fresh_manager = (armed_manager, True) \<and>
   isUnlocked (manager (run toy_platform save_before_expiry
      \<lparr>manager = armed_manager, storage = toy_storage\<rparr>)) \<and>
   \<not> isUnlocked (manager (run toy_platform (save_before_expiry @ [Elapse 1])
      \<lparr>manager = armed_manager, storage = toy_storage\<rparr>))"
proof -
  have a: "pending fresh_manager = []"
    by (simp add: fresh_manager_def)
  have e1: "elapsed save_before_expiry = 899999"
    by (simp add: save_before_expiry_def)
  have e2: "elapsed (save_before_expiry @ [Elapse 1]) = 900000"
    by (simp add: save_before_expiry_def)
  from auto_lock_fixed_window [OF a armed_manager_unlocked, of toy_platform save_before_expiry toy_storage]
    auto_lock_fixed_window [OF a armed_manager_unlocked, of toy_platform "save_before_expiry @ [Elapse 1]" toy_storage]
  show ?thesis using a armed_manager_unlocked e1 e2 by simp
qed

section \<open>Rekey\<close>

lemma decryptAll_fails:
  "r \<in> set rs \<Longrightarrow> isl (decrypt P (envelope r) old) \<Longrightarrow> isl (decryptAll P old rs)"
  by (induction rs) (auto split: sum.splits)

lemma decryptAll_length:
  "decryptAll P old rs = Inr ps \<Longrightarrow> length ps = length rs"
  by (induction rs arbitrary: ps) (auto split: sum.splits)

text \<open>A successful first pass pairs every record with what it decrypts to.\<close>

lemma decryptAll_plain:
  "decryptAll P old rs = Inr ps \<Longrightarrow>
     map (\<lambda>(r, plain). Inr plain) ps = map (\<lambda>r. decrypt P (envelope r) old) rs"
  by (induction rs arbitrary: ps) (auto split: sum.splits)

lemma decryptAll_healthy:
  "\<forall>r \<in> set rs. \<not> isl (decrypt P (envelope r) old) \<Longrightarrow> \<exists>ps. decryptAll P old rs = Inr ps"
proof (induction rs)
  case Nil
  show ?case by simp
next
  case (Cons r rs)
  then obtain ps where "decryptAll P old rs = Inr ps"
    by auto
  moreover from Cons.prems obtain plain where "decrypt P (envelope r) old = Inr plain"
    by (cases "decrypt P (envelope r) old") auto
  ultimately show ?case by simp
qed

lemma encryptAll_length:
  "encryptAll P fault new rnd i ps = Inr staged \<Longrightarrow> length staged = length ps"
  by (induction ps arbitrary: i staged) (auto split: sum.splits if_splits)

text \<open>The second pass fails when a fault is forced on a record or its nonce is not valid.\<close>

lemma encryptAll_fails:
  "j < length ps \<Longrightarrow> fault (i + j) \<or> length (rnd (Suc (i + j))) \<noteq> 12 \<Longrightarrow>
     \<exists>e. encryptAll P fault new rnd i ps = Inl e"
proof (induction ps arbitrary: i j)
  case Nil
  then show ?case by simp
next
  case (Cons p ps)
  obtain r plain where p: "p = (r, plain)"
    by (cases p)
  show ?case
  proof (cases j)
    case 0
    with Cons.prems p show ?thesis
      by (auto simp add: cipherEncrypt_def split: sum.splits)
  next
    case (Suc j')
    with Cons.prems have "j' < length ps"
      and "fault (Suc i + j') \<or> length (rnd (Suc (Suc i + j'))) \<noteq> 12"
      by simp_all
    from Cons.IH [OF this] obtain e where "encryptAll P fault new rnd (Suc i) ps = Inl e"
      by blast
    with p show ?thesis
      by (auto split: sum.splits)
  qed
qed

text \<open>With a valid key, no fault and valid nonces the second pass succeeds.\<close>

lemma encryptAll_succeeds:
  "keyAlgorithm new = ''AES-GCM'' \<Longrightarrow> keyLength new = 256 \<Longrightarrow>
   \<forall>j < length ps. \<not> fault (i + j) \<and> length (rnd (Suc (i + j))) = 12 \<Longrightarrow>
     \<exists>staged. encryptAll P fault new rnd i ps = Inr staged"
proof (induction ps arbitrary: i)
  case Nil
  show ?case by simp
next
  case (Cons p ps)
  obtain r plain where p: "p = (r, plain)"
    by (cases p)
  from Cons.prems(3) have here: "\<not> fault i \<and> length (rnd (Suc i)) = 12"
    by (metis add.right_neutral length_greater_0_conv list.distinct(1))
  have "\<forall>j < length ps. \<not> fault (Suc i + j) \<and> length (rnd (Suc (Suc i + j))) = 12"
  proof (intro allI impI)
    fix j assume "j < length ps"
    then have "Suc j < length (p # ps)" by simp
    with Cons.prems(3) have "\<not> fault (i + Suc j) \<and> length (rnd (Suc (i + Suc j))) = 12"
      by blast
    then show "\<not> fault (Suc i + j) \<and> length (rnd (Suc (Suc i + j))) = 12"
      by simp
  qed
  from Cons.IH [OF Cons.prems(1) Cons.prems(2) this] obtain staged where
    "encryptAll P fault new rnd (Suc i) ps = Inr staged"
    by blast
  with p here Cons.prems(1) Cons.prems(2) show ?case
    by (simp add: cipherEncrypt_def encryptBytes_def)
qed

text \<open>
  What the second pass stages decrypts under the new key to the plaintext it was given,
  when AES-GCM decrypts what it encrypted.
\<close>

lemma encryptAll_plain:
  "encryptAll P fault new rnd i ps = Inr staged \<Longrightarrow> aead_correct P \<Longrightarrow>
     map (\<lambda>r. decrypt P (envelope r) new) staged = map (\<lambda>(r, plain). Inr plain) ps"
proof (induction ps arbitrary: i staged)
  case Nil
  then show ?case by simp
next
  case (Cons p ps)
  obtain r plain where p: "p = (r, plain)"
    by (cases p)
  from Cons.prems(1) p obtain env rest where
    ok: "length (rnd (Suc i)) = 12" "keyAlgorithm new = ''AES-GCM''" "keyLength new = 256"
    and env: "encryptBytes P (rnd (Suc i)) plain new = Inr env"
    and rest: "encryptAll P fault new rnd (Suc i) ps = Inr rest"
    and staged: "staged = r\<lparr>envelope := env\<rparr> # rest"
    by (auto simp add: cipherEncrypt_def split: sum.splits if_splits)
  from env ok Cons.prems(2) have "decrypt P env new = Inr plain"
    by (auto simp add: encryptBytes_def decrypt_def aead_correct_def)
  with Cons.IH [OF rest Cons.prems(2)] staged p show ?case
    by simp
qed

lemma stageAll_length:
  "stageAll P fault old new rnd rs = Inr staged \<Longrightarrow> length staged = length rs"
  by (auto simp add: stageAll_def decryptAll_length encryptAll_length split: sum.splits)

lemma stageAll_plain:
  "stageAll P fault old new rnd rs = Inr staged \<Longrightarrow> aead_correct P \<Longrightarrow>
     map (\<lambda>r. decrypt P (envelope r) new) staged = map (\<lambda>r. decrypt P (envelope r) old) rs"
  by (auto simp add: stageAll_def encryptAll_plain decryptAll_plain split: sum.splits)

text \<open>The failure of the re-encryption of any one record fails the staging.\<close>

lemma stageAll_fails:
  assumes "i < length rs"
    and "isl (decrypt P (envelope (rs ! i)) old) \<or> fault i \<or> length (rnd (Suc i)) \<noteq> 12"
  shows "\<exists>e. stageAll P fault old new rnd rs = Inl e"
proof (cases "decryptAll P old rs")
  case (Inl e)
  then show ?thesis by (simp add: stageAll_def)
next
  case (Inr ps)
  have "\<not> isl (decrypt P (envelope (rs ! i)) old)"
  proof
    assume "isl (decrypt P (envelope (rs ! i)) old)"
    moreover from assms(1) have "rs ! i \<in> set rs"
      by simp
    ultimately have "isl (decryptAll P old rs)"
      by (rule decryptAll_fails [rotated])
    with Inr show False by simp
  qed
  with assms(2) have "fault (0 + i) \<or> length (rnd (Suc (0 + i))) \<noteq> 12"
    by simp
  moreover from Inr assms(1) have "i < length ps"
    by (simp add: decryptAll_length)
  ultimately obtain e where "encryptAll P fault new rnd 0 ps = Inl e"
    using encryptAll_fails by blast
  with Inr show ?thesis by (simp add: stageAll_def)
qed

lemma stageAll_succeeds:
  assumes "keyAlgorithm new = ''AES-GCM''" and "keyLength new = 256"
    and "\<forall>r \<in> set rs. \<not> isl (decrypt P (envelope r) old)"
    and "\<forall>i < length rs. \<not> fault i \<and> length (rnd (Suc i)) = 12"
  shows "\<exists>staged. stageAll P fault old new rnd rs = Inr staged"
proof -
  from decryptAll_healthy [OF assms(3)] obtain ps where ps: "decryptAll P old rs = Inr ps"
    by blast
  then have "length ps = length rs"
    by (rule decryptAll_length)
  with assms(4) have "\<forall>j < length ps. \<not> fault (0 + j) \<and> length (rnd (Suc (0 + j))) = 12"
    by simp
  from encryptAll_succeeds [OF assms(1) assms(2) this] ps show ?thesis
    by (simp add: stageAll_def)
qed

text \<open>The key a derivation yields passes the cipher's key validation.\<close>

lemma derive_key_valid:
  "derive P password slt params = Inr k \<Longrightarrow> keyAlgorithm k = ''AES-GCM'' \<and> keyLength k = 256"
  by (auto simp add: derive_def deriveKey_def)

text \<open>A rekey that does not succeed has written nothing and left the vault as it was.\<close>

lemma rekey_failure_unchanged:
  "snd (snd (rekey P known fault rnd newSalt newPassword v)) \<noteq> Inr () \<Longrightarrow>
     fst (rekey P known fault rnd newSalt newPassword v) = v \<and>
     fst (snd (rekey P known fault rnd newSalt newPassword v)) = []"
  by (auto simp add: rekey_def Let_def split: option.splits sum.splits)

lemma rekey_aborts:
  assumes "vaultKey v = Some old" and "i < length (vaultRecords v)"
    and "isl (decrypt P (envelope (vaultRecords v ! i)) old) \<or> fault i \<or>
         length (rnd (Suc i)) \<noteq> 12"
  shows "rekey P known fault rnd newSalt newPassword v = (v, [], Inl RekeyAborted)"
proof -
  obtain new where d: "derive P newPassword newSalt (kdfParams (vaultMetadata v)) = Inr new"
    using derive_total by blast
  from stageAll_fails [of i "vaultRecords v" P old fault rnd new, OF assms(2) assms(3)]
  obtain e where "stageAll P fault old new rnd (vaultRecords v) = Inl e"
    by blast
  with assms(1) d show ?thesis by (simp add: rekey_def)
qed

lemma rekey_succeeds:
  assumes "vaultKey v = Some old"
    and "\<forall>r \<in> set (vaultRecords v). \<not> isl (decrypt P (envelope r) old)"
    and "\<forall>i < length (vaultRecords v). \<not> fault i \<and> length (rnd (Suc i)) = 12"
    and "length (rnd 0) = 12"
  shows "snd (snd (rekey P known fault rnd newSalt newPassword v)) = Inr ()"
proof -
  obtain new where d: "derive P newPassword newSalt (kdfParams (vaultMetadata v)) = Inr new"
    using derive_total by blast
  then have valid: "keyAlgorithm new = ''AES-GCM''" "keyLength new = 256"
    using derive_key_valid by blast+
  from stageAll_succeeds [OF valid assms(2) assms(3)] obtain staged where
    "stageAll P fault old new rnd (vaultRecords v) = Inr staged"
    by blast
  with assms(1) assms(4) d valid show ?thesis
    by (simp add: rekey_def cipherEncrypt_def encryptBytes_def Let_def)
qed

text \<open>
  A rekey that succeeds has staged every record, written the staged records and then the
  metadata, and keeps the new key; under the new password the key check verifies and
  every record opens to the plaintext it had under the old key.
\<close>

lemma rekey_success_result:
  assumes "vaultKey v = Some old" and "aead_correct P"
    and "rekey P known fault rnd newSalt newPassword v = (v', ws, Inr ())"
  shows "\<exists>new. derive P newPassword newSalt (kdfParams (vaultMetadata v)) = Inr new \<and>
           vaultKey v' = Some new \<and> salt (vaultMetadata v') = newSalt \<and>
           ws = [PutRecords (vaultRecords v'), SaveMetadata (vaultMetadata v')] \<and>
           length (vaultRecords v') = length (vaultRecords v) \<and>
           verifyKeyCheck P known newPassword (vaultMetadata v') \<and>
           map (openRecord P newPassword (vaultMetadata v')) (vaultRecords v') =
             map (\<lambda>r. decrypt P (envelope r) old) (vaultRecords v)"
proof -
  obtain new where d: "derive P newPassword newSalt (kdfParams (vaultMetadata v)) = Inr new"
    using derive_total by blast
  then have valid: "keyAlgorithm new = ''AES-GCM''" "keyLength new = 256"
    using derive_key_valid by blast+
  from assms(1) assms(3) d obtain staged check where
    st: "stageAll P fault old new rnd (vaultRecords v) = Inr staged"
    and ck: "cipherEncrypt P (rnd 0) known new = Inr check"
    and v': "v' = \<lparr>vaultMetadata = (vaultMetadata v)\<lparr>salt := newSalt, keyCheckEnvelope := check\<rparr>,
                   vaultRecords = staged, vaultKey = Some new\<rparr>"
    and ws: "ws = [PutRecords staged,
                   SaveMetadata ((vaultMetadata v)\<lparr>salt := newSalt, keyCheckEnvelope := check\<rparr>)]"
    by (auto simp add: rekey_def Let_def split: sum.splits)
  have d': "derive P newPassword (salt (vaultMetadata v')) (kdfParams (vaultMetadata v')) = Inr new"
    using d v' by simp
  from ck assms(2) valid have "decrypt P check new = Inr known"
    by (auto simp add: cipherEncrypt_def encryptBytes_def decrypt_def aead_correct_def
        split: if_splits)
  then have check: "verifyKeyCheck P known newPassword (vaultMetadata v')"
    using d' v' by (simp add: verifyKeyCheck_def)
  have "map (openRecord P newPassword (vaultMetadata v')) (vaultRecords v') =
          map (\<lambda>r. decrypt P (envelope r) new) staged"
    using d' v' by (simp add: openRecord_def)
  with stageAll_plain [OF st assms(2)]
  have opens: "map (openRecord P newPassword (vaultMetadata v')) (vaultRecords v') =
                 map (\<lambda>r. decrypt P (envelope r) old) (vaultRecords v)"
    by simp
  from d v' ws check opens stageAll_length [OF st] show ?thesis
    by simp
qed

text \<open>
  Claim C2. \<open>rekey(newPassword)\<close> is all-or-nothing. In an Unlocked vault whose key is
  the one derived from the old password: a rekey that does not succeed has written
  nothing and leaves the vault exactly as it was, with the old key and the old metadata,
  every record opening under the old password to what it did before (so every record
  that was decryptable remains decryptable), none stored under the new key. If the
  re-encryption of any single record fails, whether its envelope does not decrypt, a
  failure is forced on it, or its nonce is not valid, the rekey aborts with
  \<open>RekeyAborted\<close>. Whenever anything has been written or the metadata replaced, the rekey
  has succeeded: every record had been re-encrypted and staged, the staged batch was
  written first and the new metadata after it. After a success the new password
  verifies against the key check and opens every record to its old plaintext; and a
  rekey in which nothing fails does succeed.
\<close>

theorem rekey_all_or_nothing:
  fixes P known fault rnd newSalt newPassword v
  defines "R \<equiv> rekey P known fault rnd newSalt newPassword v"
  assumes "vaultKey v = Some old"
    and "derive P oldPassword (salt (vaultMetadata v)) (kdfParams (vaultMetadata v)) = Inr old"
  shows "(snd (snd R) \<noteq> Inr () \<longrightarrow>
            fst R = v \<and> fst (snd R) = [] \<and> vaultKey (fst R) = Some old \<and>
            vaultMetadata (fst R) = vaultMetadata v \<and> vaultRecords (fst R) = vaultRecords v \<and>
            map (openRecord P oldPassword (vaultMetadata (fst R))) (vaultRecords (fst R)) =
              map (\<lambda>r. decrypt P (envelope r) old) (vaultRecords v)) \<and>
         ((\<forall>r \<in> set (vaultRecords v). \<not> isl (decrypt P (envelope r) old)) \<and>
          snd (snd R) \<noteq> Inr () \<longrightarrow>
            (\<forall>r \<in> set (vaultRecords (fst R)).
               \<not> isl (openRecord P oldPassword (vaultMetadata (fst R)) r))) \<and>
         (i < length (vaultRecords v) \<and>
          (isl (decrypt P (envelope (vaultRecords v ! i)) old) \<or> fault i \<or>
           length (rnd (Suc i)) \<noteq> 12) \<longrightarrow>
            R = (v, [], Inl RekeyAborted)) \<and>
         (vaultMetadata (fst R) \<noteq> vaultMetadata v \<or> fst (snd R) \<noteq> [] \<longrightarrow>
            snd (snd R) = Inr () \<and>
            (\<exists>new staged.
               derive P newPassword newSalt (kdfParams (vaultMetadata v)) = Inr new \<and>
               stageAll P fault old new rnd (vaultRecords v) = Inr staged \<and>
               length staged = length (vaultRecords v) \<and>
               vaultRecords (fst R) = staged \<and> vaultKey (fst R) = Some new \<and>
               fst (snd R) = [PutRecords staged, SaveMetadata (vaultMetadata (fst R))])) \<and>
         (snd (snd R) = Inr () \<and> aead_correct P \<longrightarrow>
            verifyKeyCheck P known newPassword (vaultMetadata (fst R)) \<and>
            map (openRecord P newPassword (vaultMetadata (fst R))) (vaultRecords (fst R)) =
              map (\<lambda>r. decrypt P (envelope r) old) (vaultRecords v)) \<and>
         ((\<forall>r \<in> set (vaultRecords v). \<not> isl (decrypt P (envelope r) old)) \<and>
          (\<forall>j < length (vaultRecords v). \<not> fault j \<and> length (rnd (Suc j)) = 12) \<and>
          length (rnd 0) = 12 \<longrightarrow>
            snd (snd R) = Inr ())"
proof -
  have opens: "openRecord P oldPassword (vaultMetadata v) r = decrypt P (envelope r) old" for r
    using assms(3) by (simp add: openRecord_def)
  have unchanged: "fst R = v \<and> fst (snd R) = []" if "snd (snd R) \<noteq> Inr ()"
    using rekey_failure_unchanged [of P known fault rnd newSalt newPassword v] that
    unfolding R_def by simp
  have first: "snd (snd R) \<noteq> Inr () \<longrightarrow>
            fst R = v \<and> fst (snd R) = [] \<and> vaultKey (fst R) = Some old \<and>
            vaultMetadata (fst R) = vaultMetadata v \<and> vaultRecords (fst R) = vaultRecords v \<and>
            map (openRecord P oldPassword (vaultMetadata (fst R))) (vaultRecords (fst R)) =
              map (\<lambda>r. decrypt P (envelope r) old) (vaultRecords v)"
    using unchanged assms(2) opens by simp
  have second: "(\<forall>r \<in> set (vaultRecords v). \<not> isl (decrypt P (envelope r) old)) \<and>
          snd (snd R) \<noteq> Inr () \<longrightarrow>
            (\<forall>r \<in> set (vaultRecords (fst R)).
               \<not> isl (openRecord P oldPassword (vaultMetadata (fst R)) r))"
    using unchanged opens by simp
  have third: "i < length (vaultRecords v) \<and>
          (isl (decrypt P (envelope (vaultRecords v ! i)) old) \<or> fault i \<or>
           length (rnd (Suc i)) \<noteq> 12) \<longrightarrow>
            R = (v, [], Inl RekeyAborted)"
    unfolding R_def using rekey_aborts [OF assms(2)] by blast
  have fourth: "vaultMetadata (fst R) \<noteq> vaultMetadata v \<or> fst (snd R) \<noteq> [] \<longrightarrow>
            snd (snd R) = Inr () \<and>
            (\<exists>new staged.
               derive P newPassword newSalt (kdfParams (vaultMetadata v)) = Inr new \<and>
               stageAll P fault old new rnd (vaultRecords v) = Inr staged \<and>
               length staged = length (vaultRecords v) \<and>
               vaultRecords (fst R) = staged \<and> vaultKey (fst R) = Some new \<and>
               fst (snd R) = [PutRecords staged, SaveMetadata (vaultMetadata (fst R))])"
  proof
    assume "vaultMetadata (fst R) \<noteq> vaultMetadata v \<or> fst (snd R) \<noteq> []"
    with unchanged have ok: "snd (snd R) = Inr ()"
      by auto
    obtain new where d: "derive P newPassword newSalt (kdfParams (vaultMetadata v)) = Inr new"
      using derive_total by blast
    from ok assms(2) d obtain staged where
      st: "stageAll P fault old new rnd (vaultRecords v) = Inr staged"
      unfolding R_def by (auto simp add: rekey_def Let_def split: sum.splits)
    with ok assms(2) d have "vaultRecords (fst R) = staged \<and> vaultKey (fst R) = Some new \<and>
        fst (snd R) = [PutRecords staged, SaveMetadata (vaultMetadata (fst R))]"
      unfolding R_def by (auto simp add: rekey_def Let_def split: sum.splits)
    with ok d st stageAll_length [OF st] show "snd (snd R) = Inr () \<and>
            (\<exists>new staged.
               derive P newPassword newSalt (kdfParams (vaultMetadata v)) = Inr new \<and>
               stageAll P fault old new rnd (vaultRecords v) = Inr staged \<and>
               length staged = length (vaultRecords v) \<and>
               vaultRecords (fst R) = staged \<and> vaultKey (fst R) = Some new \<and>
               fst (snd R) = [PutRecords staged, SaveMetadata (vaultMetadata (fst R))])"
      by blast
  qed
  have fifth: "snd (snd R) = Inr () \<and> aead_correct P \<longrightarrow>
            verifyKeyCheck P known newPassword (vaultMetadata (fst R)) \<and>
            map (openRecord P newPassword (vaultMetadata (fst R))) (vaultRecords (fst R)) =
              map (\<lambda>r. decrypt P (envelope r) old) (vaultRecords v)"
  proof
    assume a: "snd (snd R) = Inr () \<and> aead_correct P"
    then have "rekey P known fault rnd newSalt newPassword v = (fst R, fst (snd R), Inr ())"
      unfolding R_def by (simp add: prod_eq_iff)
    from rekey_success_result [OF assms(2) _ this] a
    show "verifyKeyCheck P known newPassword (vaultMetadata (fst R)) \<and>
            map (openRecord P newPassword (vaultMetadata (fst R))) (vaultRecords (fst R)) =
              map (\<lambda>r. decrypt P (envelope r) old) (vaultRecords v)"
      by blast
  qed
  have sixth: "(\<forall>r \<in> set (vaultRecords v). \<not> isl (decrypt P (envelope r) old)) \<and>
          (\<forall>j < length (vaultRecords v). \<not> fault j \<and> length (rnd (Suc j)) = 12) \<and>
          length (rnd 0) = 12 \<longrightarrow>
            snd (snd R) = Inr ()"
    unfolding R_def using rekey_succeeds [OF assms(2)] by blast
  from first second third fourth fifth sixth show ?thesis
    by blast
qed

theorem rekey_all_or_nothing_witness:
  "vaultKey healthy_vault = Some (toy_key ''hunter2'') \<and>
   derive toy_platform ''hunter2'' (salt (vaultMetadata healthy_vault))
     (kdfParams (vaultMetadata healthy_vault)) = Inr (toy_key ''hunter2'') \<and>
   aead_correct toy_platform \<and>
   openRecord toy_platform ''hunter2'' (vaultMetadata healthy_vault) good_record =
     Inr (textEncode toy_platform ''example.com'') \<and>
   openRecord toy_platform ''hunter2'' (vaultMetadata healthy_vault) second_record =
     Inr (textEncode toy_platform ''memo'') \<and>
   (1::nat) < length (vaultRecords healthy_vault) \<and> fault_on_second 1 \<and>
   rekey toy_platform toy_known fault_on_second toy_rnd new_salt ''correct horse'' healthy_vault =
     (healthy_vault, [], Inl RekeyAborted) \<and>
   snd (snd (rekey toy_platform toy_known no_fault toy_rnd new_salt ''correct horse''
     healthy_vault)) = Inr () \<and>
   vaultMetadata (fst (rekey toy_platform toy_known no_fault toy_rnd new_salt ''correct horse''
     healthy_vault)) \<noteq> vaultMetadata healthy_vault \<and>
   verifyKeyCheck toy_platform toy_known ''correct horse''
     (vaultMetadata (fst (rekey toy_platform toy_known no_fault toy_rnd new_salt
        ''correct horse'' healthy_vault))) \<and>
   map (openRecord toy_platform ''correct horse''
          (vaultMetadata (fst (rekey toy_platform toy_known no_fault toy_rnd new_salt
             ''correct horse'' healthy_vault))))
     (vaultRecords (fst (rekey toy_platform toy_known no_fault toy_rnd new_salt
        ''correct horse'' healthy_vault))) =
     [Inr (textEncode toy_platform ''example.com''), Inr (textEncode toy_platform ''memo'')]"
proof -
  have k: "vaultKey healthy_vault = Some (toy_key ''hunter2'')"
    by (simp add: healthy_vault_def)
  have pw: "derive toy_platform ''hunter2'' (salt (vaultMetadata healthy_vault))
              (kdfParams (vaultMetadata healthy_vault)) = Inr (toy_key ''hunter2'')"
    by (simp add: healthy_vault_def toy_defs)
  have o1: "decrypt toy_platform (envelope good_record) (toy_key ''hunter2'') =
              Inr (textEncode toy_platform ''example.com'')"
    by (simp add: good_record_def toy_defs)
  have o2: "decrypt toy_platform (envelope second_record) (toy_key ''hunter2'') =
              Inr (textEncode toy_platform ''memo'')"
    by (simp add: second_record_def toy_defs)
  have recs: "vaultRecords healthy_vault = [good_record, second_record]"
    by (simp add: healthy_vault_def)
  have open1: "openRecord toy_platform ''hunter2'' (vaultMetadata healthy_vault) good_record =
                 Inr (textEncode toy_platform ''example.com'')"
    using pw o1 by (simp add: openRecord_def)
  have open2: "openRecord toy_platform ''hunter2'' (vaultMetadata healthy_vault) second_record =
                 Inr (textEncode toy_platform ''memo'')"
    using pw o2 by (simp add: openRecord_def)
  have f: "(1::nat) < length (vaultRecords healthy_vault) \<and> fault_on_second 1"
    by (simp add: recs fault_on_second_def)
  have healthy: "\<forall>r \<in> set (vaultRecords healthy_vault).
                   \<not> isl (decrypt toy_platform (envelope r) (toy_key ''hunter2''))"
    using o1 o2 by (simp add: recs)
  have quiet: "\<forall>j < length (vaultRecords healthy_vault).
                 \<not> no_fault j \<and> length (toy_rnd (Suc j)) = 12"
    by (simp add: no_fault_def toy_rnd_def nonce12_def)
  have n0: "length (toy_rnd 0) = 12"
    by (simp add: toy_rnd_def nonce12_def)
  note aborted = rekey_all_or_nothing [where P = toy_platform and v = healthy_vault and i = 1
      and fault = fault_on_second and rnd = toy_rnd and known = toy_known
      and newSalt = new_salt and newPassword = "''correct horse''", OF k pw]
  note succeeded = rekey_all_or_nothing [where P = toy_platform and v = healthy_vault and i = 0
      and fault = no_fault and rnd = toy_rnd and known = toy_known
      and newSalt = new_salt and newPassword = "''correct horse''", OF k pw]
  from aborted f have a: "rekey toy_platform toy_known fault_on_second toy_rnd new_salt
      ''correct horse'' healthy_vault = (healthy_vault, [], Inl RekeyAborted)"
    by blast
  from succeeded healthy quiet n0 have s: "snd (snd (rekey toy_platform toy_known no_fault toy_rnd
      new_salt ''correct horse'' healthy_vault)) = Inr ()"
    by blast
  with succeeded toy_platform_aead_correct have
    v: "verifyKeyCheck toy_platform toy_known ''correct horse''
          (vaultMetadata (fst (rekey toy_platform toy_known no_fault toy_rnd new_salt
             ''correct horse'' healthy_vault)))"
    and m: "map (openRecord toy_platform ''correct horse''
          (vaultMetadata (fst (rekey toy_platform toy_known no_fault toy_rnd new_salt
             ''correct horse'' healthy_vault))))
        (vaultRecords (fst (rekey toy_platform toy_known no_fault toy_rnd new_salt
           ''correct horse'' healthy_vault))) =
        map (\<lambda>r. decrypt toy_platform (envelope r) (toy_key ''hunter2''))
          (vaultRecords healthy_vault)"
    by blast+
  from succeeded s have "salt (vaultMetadata (fst (rekey toy_platform toy_known no_fault toy_rnd
      new_salt ''correct horse'' healthy_vault))) = new_salt"
    using rekey_success_result [OF k toy_platform_aead_correct, of toy_known no_fault toy_rnd
        new_salt "''correct horse''"]
    by (metis prod.collapse)
  then have c: "vaultMetadata (fst (rekey toy_platform toy_known no_fault toy_rnd new_salt
      ''correct horse'' healthy_vault)) \<noteq> vaultMetadata healthy_vault"
    by (auto simp add: healthy_vault_def toy_metadata_def toy_salt_def new_salt_def)
  from m o1 o2 have m': "map (openRecord toy_platform ''correct horse''
          (vaultMetadata (fst (rekey toy_platform toy_known no_fault toy_rnd new_salt
             ''correct horse'' healthy_vault))))
        (vaultRecords (fst (rekey toy_platform toy_known no_fault toy_rnd new_salt
           ''correct horse'' healthy_vault))) =
        [Inr (textEncode toy_platform ''example.com''), Inr (textEncode toy_platform ''memo'')]"
    by (simp add: recs)
  from k pw toy_platform_aead_correct open1 open2 f a s c v m' show ?thesis
    by blast
qed

section \<open>Bundle import\<close>

text \<open>
  Claim C4. \<open>importBundle(bundle, password)\<close> checks the bundle's key-check envelope
  against the password before it replaces anything: when the check fails, the call fails
  with \<open>ImportAuthenticationFailed\<close> and the local vault is exactly as it was, so its
  metadata and every record, with what each decrypts to under the original key, are
  unchanged.
\<close>

theorem import_wrong_password:
  assumes "\<not> verifyKeyCheck P known password (bundleMetadata bundle)"
  shows "importBundle P known bundle password v = (v, Inl ImportAuthenticationFailed) \<and>
         vaultMetadata (fst (importBundle P known bundle password v)) = vaultMetadata v \<and>
         map (\<lambda>r. decrypt P (envelope r) k0)
             (vaultRecords (fst (importBundle P known bundle password v))) =
           map (\<lambda>r. decrypt P (envelope r) k0) (vaultRecords v)"
  using assms by (simp add: importBundle_def)

theorem import_wrong_password_witness:
  "\<not> verifyKeyCheck toy_platform toy_known ''wrong'' (bundleMetadata toy_bundle) \<and>
   importBundle toy_platform toy_known toy_bundle ''wrong'' damaged_vault =
     (damaged_vault, Inl ImportAuthenticationFailed)"
proof -
  have a: "\<not> verifyKeyCheck toy_platform toy_known ''wrong'' (bundleMetadata toy_bundle)"
    by (simp add: verifyKeyCheck_def toy_bundle_def toy_defs)
  from import_wrong_password [OF a, of damaged_vault] a show ?thesis by blast
qed


section \<open>Category totals\<close>

lemma foldl_addSubscription_Inl: "foldl (addSubscription A cs) (Inl e) xs = Inl e"
  by (induction xs) (simp_all add: addSubscription_def)

lemma foldl_fun_upd_const:
  "foldl (\<lambda>categoryData c. categoryData(c \<mapsto> z)) m cats c =
     (if c \<in> set cats then Some z else m c)"
  by (induction cats arbitrary: m) auto

lemma initCategories_at:
  "c \<in> set cats \<Longrightarrow>
     initCategories A cats c =
       Some \<lparr>monthly = lit A 0, yearly = lit A 0, count = 0, subscriptions = []\<rparr>"
  by (simp add: initCategories_def foldl_fun_upd_const)

lemma dom_initCategories: "dom (initCategories A cats) = set cats"
  by (auto simp add: initCategories_def foldl_fun_upd_const split: if_splits)

text \<open>The loop does not throw when every subscription it visits has an entry to update.\<close>

lemma foldl_addSubscription_total:
  "\<forall>sub \<in> set xs. categoryOf sub \<in> dom d0 \<Longrightarrow>
     \<exists>d. foldl (addSubscription A cs) (Inr d0) xs = Inr d"
proof (induction xs arbitrary: d0)
  case Nil
  then show ?case by simp
next
  case (Cons x xs)
  from Cons.prems obtain tx where tx: "d0 (categoryOf x) = Some tx"
    by auto
  then obtain d1 where step: "addSubscription A cs (Inr d0) x = Inr d1"
    and keys: "dom d1 = dom d0"
    by (auto simp add: addSubscription_def Let_def)
  from Cons.prems keys have "\<forall>sub \<in> set xs. categoryOf sub \<in> dom d1"
    by simp
  from Cons.IH [OF this] step show ?case by simp
qed

text \<open>
  What the loop leaves in one entry: the entry's totals, extended in order by the
  subscriptions of that category.
\<close>

lemma foldl_addSubscription_totals:
  "foldl (addSubscription A cs) (Inr d0) xs = Inr d \<Longrightarrow> d0 c = Some t0 \<Longrightarrow>
     \<exists>t. d c = Some t \<and>
       monthly t = foldl (fadd A) (monthly t0)
                     (map (convertedMonthlyAmount A cs) (filter (\<lambda>sub. categoryOf sub = c) xs)) \<and>
       yearly t = foldl (fadd A) (yearly t0)
                     (map (\<lambda>sub. fmul A (convertedMonthlyAmount A cs sub) (lit A 12))
                        (filter (\<lambda>sub. categoryOf sub = c) xs)) \<and>
       count t = count t0 + length (filter (\<lambda>sub. categoryOf sub = c) xs) \<and>
       subscriptions t = subscriptions t0 @ filter (\<lambda>sub. categoryOf sub = c) xs"
proof (induction xs arbitrary: d0 t0)
  case Nil
  then show ?case by simp
next
  case (Cons x xs)
  show ?case
  proof (cases "d0 (categoryOf x)")
    case None
    then have "addSubscription A cs (Inr d0) x = Inl TypeError"
      by (simp add: addSubscription_def)
    with Cons.prems(1) show ?thesis by (simp add: foldl_addSubscription_Inl)
  next
    case (Some tx)
    define d1 where "d1 = d0(categoryOf x \<mapsto>
        \<lparr>monthly = fadd A (monthly tx) (convertedMonthlyAmount A cs x),
         yearly = fadd A (yearly tx) (fmul A (convertedMonthlyAmount A cs x) (lit A 12)),
         count = count tx + 1,
         subscriptions = subscriptions tx @ [x]\<rparr>)"
    have step: "addSubscription A cs (Inr d0) x = Inr d1"
      using Some by (simp add: addSubscription_def d1_def Let_def)
    with Cons.prems(1) have rest: "foldl (addSubscription A cs) (Inr d1) xs = Inr d"
      by simp
    show ?thesis
    proof (cases "categoryOf x = c")
      case True
      with Some Cons.prems(2) have "tx = t0" by simp
      with True have "d1 c = Some
        \<lparr>monthly = fadd A (monthly t0) (convertedMonthlyAmount A cs x),
         yearly = fadd A (yearly t0) (fmul A (convertedMonthlyAmount A cs x) (lit A 12)),
         count = count t0 + 1,
         subscriptions = subscriptions t0 @ [x]\<rparr>"
        by (simp add: d1_def)
      from Cons.IH [OF rest this] True show ?thesis by simp
    next
      case False
      then have "d1 c = Some t0"
        using Cons.prems(2) by (simp add: d1_def)
      from Cons.IH [OF rest this] False show ?thesis by simp
    qed
  qed
qed


lemma categoryAnalytics_totals:
  assumes "categoryAnalytics A cats cs subs = Inr d" and "c \<in> set cats"
  shows "\<exists>t. d c = Some t \<and>
       monthly t = foldl (fadd A) (lit A 0)
                     (map (convertedMonthlyAmount A cs) (inCategory c subs)) \<and>
       yearly t = foldl (fadd A) (lit A 0)
                     (map (\<lambda>sub. fmul A (convertedMonthlyAmount A cs sub) (lit A 12))
                        (inCategory c subs)) \<and>
       count t = length (inCategory c subs) \<and> subscriptions t = inCategory c subs"
proof -
  from assms(1) have run:
    "foldl (addSubscription A cs) (Inr (initCategories A cats)) (filter isActive subs) = Inr d"
    by (simp add: categoryAnalytics_def)
  from foldl_addSubscription_totals [OF run initCategories_at [OF assms(2)]]
  show ?thesis by (simp add: inCategory_def conj_commute)
qed

lemma categoryAnalytics_total:
  assumes "\<forall>sub \<in> set subs. isActive sub \<longrightarrow> categoryOf sub \<in> set cats"
  shows "\<exists>d. categoryAnalytics A cats cs subs = Inr d"
proof -
  from assms have "\<forall>sub \<in> set (filter isActive subs). categoryOf sub \<in> dom (initCategories A cats)"
    by (simp add: dom_initCategories)
  from foldl_addSubscription_total [OF this] show ?thesis
    by (simp add: categoryAnalytics_def)
qed



text \<open>Scaling into the rounding range does not change the value that is rounded.\<close>

lemma normalise_value:
  "normalise fuel q s = (q', s') \<Longrightarrow> q' * s' = q * s"
proof (induction fuel arbitrary: q s)
  case 0
  then show ?case by simp
next
  case (Suc fuel)
  then show ?case by (auto split: if_splits)
qed

lemma floor_rat_numeral:
  "\<lfloor>(numeral a :: rat) / numeral b\<rfloor> = numeral a div numeral b"
  using floor_divide_of_int_eq [of "numeral a" "numeral b", where ?'a = rat] by simp

lemmas dbl_eval = dbl_def nearest_even_def eval_nat_numeral Let_def floor_rat_numeral

lemma dbl_small: "dbl 0 = 0" "dbl 1 = 1" "dbl 12 = 12"
  by (simp_all add: dbl_eval)

lemma dbl_tenth: "dbl (1 / 10) = 3602879701896397 / 36028797018963968"
  by (simp add: dbl_eval)

lemma dbl_seven_tenths: "dbl (7 / 10) = 3152519739159347 / 4503599627370496"
  by (simp add: dbl_eval)

lemma dbl_tenth_again:
  "dbl (3602879701896397 / 36028797018963968) = 3602879701896397 / 36028797018963968"
  by (simp add: dbl_eval)

lemma dbl_seven_tenths_again:
  "dbl (3152519739159347 / 4503599627370496) = 3152519739159347 / 4503599627370496"
  by (simp add: dbl_eval)

lemma dbl_monthly_sum:
  "dbl (28823037615171173 / 36028797018963968) =
     7205759403792793 / 9007199254740992"
  by (simp add: dbl_eval)

lemma dbl_tenth_year:
  "dbl (10808639105689191 / 9007199254740992) = 1351079888211149 / 1125899906842624"
  by (simp add: dbl_eval)

lemma dbl_seven_tenths_year:
  "dbl (9457559217478041 / 1125899906842624) = 1182194902184755 / 140737488355328"
  by (simp add: dbl_eval)

lemma dbl_tenth_year_again:
  "dbl (1351079888211149 / 1125899906842624) = 1351079888211149 / 1125899906842624"
  by (simp add: dbl_eval)

lemma dbl_yearly_sum:
  "dbl (10808639105689189 / 1125899906842624) =
     2702159776422297 / 281474976710656"
  by (simp add: dbl_eval)

lemma dbl_monthly_year:
  "dbl (21617278211378379 / 2251799813685248) = 5404319552844595 / 562949953421312"
  by (simp add: dbl_eval)


lemmas conversion_defs = convertedMonthlyAmount_def convertToBaseCurrency_def rate_or_one_def
  getRate_def objectPrototypeMembers_def monthlyAmount_def DEFAULT_CURRENCY_SETTINGS_def
  streaming_def odd_currency_def

lemmas dbl_values = dbl_small dbl_tenth dbl_seven_tenths dbl_tenth_again dbl_seven_tenths_again
  dbl_monthly_sum dbl_tenth_year dbl_seven_tenths_year dbl_tenth_year_again dbl_yearly_sum
  dbl_monthly_year



text \<open>
  A currency code that names a member of \<^verbatim>\<open>Object.prototype\<close> and has no rate of its own:
  the amount converts to \<^verbatim>\<open>NaN\<close>, not to the amount itself.
\<close>

lemma rate_or_one_cases:
  "rate_or_one A cs c =
     (case exchangeRates cs c of
        Some r \<Rightarrow> if falsy A r then lit A 1 else r
      | None \<Rightarrow> if c \<in> set objectPrototypeMembers then nan A else lit A 1)"
  by (simp add: rate_or_one_def getRate_def split: option.splits)

lemma inherited_currency_converts_to_nan:
  "convertedMonthlyAmount double_arith (DEFAULT_CURRENCY_SETTINGS double_arith)
     (odd_currency double_arith 5) = None"
  "convertedMonthlyAmount exact_arith (DEFAULT_CURRENCY_SETTINGS exact_arith)
     (odd_currency exact_arith 5) = None"
  by (simp_all add: conversion_defs double_arith_def exact_arith_def dbl_values)

text \<open>
  With one such subscription in a category, the category's monthly and yearly totals are
  \<^verbatim>\<open>NaN\<close>.
\<close>

lemma inherited_currency_totals_nan:
  "\<exists>d t. categoryAnalytics double_arith [''Streaming'', ''Other'']
            (DEFAULT_CURRENCY_SETTINGS double_arith) [odd_currency double_arith 5] = Inr d \<and>
         d ''Other'' = Some t \<and> monthly t = None \<and> yearly t = None \<and> count t = 1"
proof -
  have a: "\<forall>sub \<in> set [odd_currency double_arith 5].
             isActive sub \<longrightarrow> categoryOf sub \<in> set [''Streaming'', ''Other'']"
    by (simp add: odd_currency_def categoryOf_def)
  from categoryAnalytics_total [OF a] obtain d where
    d: "categoryAnalytics double_arith [''Streaming'', ''Other'']
          (DEFAULT_CURRENCY_SETTINGS double_arith) [odd_currency double_arith 5] = Inr d"
    by blast
  have i: "inCategory ''Other'' [odd_currency double_arith 5] = [odd_currency double_arith 5]"
    by (simp add: inCategory_def odd_currency_def categoryOf_def)
  from categoryAnalytics_totals [OF d, of "''Other''"] obtain t where
    t: "d ''Other'' = Some t"
    and m: "monthly t = foldl (fadd double_arith) (lit double_arith 0)
              (map (convertedMonthlyAmount double_arith (DEFAULT_CURRENCY_SETTINGS double_arith))
                 [odd_currency double_arith 5])"
    and y: "yearly t = foldl (fadd double_arith) (lit double_arith 0)
              (map (\<lambda>sub. fmul double_arith
                      (convertedMonthlyAmount double_arith (DEFAULT_CURRENCY_SETTINGS double_arith) sub)
                      (lit double_arith 12))
                 [odd_currency double_arith 5])"
    and n: "count t = length [odd_currency double_arith 5]"
    by (auto simp add: i)
  have "monthly t = None"
    unfolding m by (simp add: inherited_currency_converts_to_nan) (simp add: double_arith_def)
  moreover have "yearly t = None"
    unfolding y by (simp add: inherited_currency_converts_to_nan) (simp add: double_arith_def)
  ultimately show ?thesis using d t n by simp
qed




end
